theory Spec2Isabelle
  imports Main "HOL-Library.Sublist"
begin

section \<open>The multi-value parameter setter of strdistmatch\<close>

text \<open>
  This theory embeds \<^verbatim>\<open>strdistmatch/multiSetter.go\<close> and
  \<^verbatim>\<open>strdistmatch/suggestAlts.go\<close>: the engine that parses one command-line
  value of the form \<^verbatim>\<open>name=subval="..." subval="..." ...\<close> into a named record.

  Conventions of the embedding.
  \<^item> A Go \<^verbatim>\<open>string\<close> is a \<^typ>\<open>string\<close>, one \<^typ>\<open>char\<close> per byte. Every
    character class of the two regular expressions is ASCII or the complement of one
    ASCII character, so matching byte by byte agrees with matching rune by rune.
  \<^item> A Go \<^verbatim>\<open>map[string]V\<close> that the code ranges over is an association list
    \<open>(string \<times> V) list\<close>: lookup is \<^const>\<open>map_of\<close> and the order of the list is
    the order in which one \<^verbatim>\<open>range\<close> visits the entries. Go fixes no such order, so
    a theorem stated for every list holds for every order.
  \<^item> The generic record type \<^verbatim>\<open>T\<close> is the type variable \<open>'r\<close>.
  \<^item> \<^verbatim>\<open>param.Setter\<close>, the string-distance finder and the allowed-values
    type live in other modules. They are taken as parameters: a setter is a function on
    the scratch record (in Go it writes through a pointer into \<^verbatim>\<open>EntryVal\<close>), the
    finder is a function from a count, a string and a population to a list of strings.
  \<^item> An \<^verbatim>\<open>error\<close> is a value of the datatype \<open>error\<close>, whose constructors
    carry the values that the Go message formats; a \<^verbatim>\<open>panic\<close> is a value of
    \<open>panic\<close>.
  \<^item> A method with a pointer receiver returns the updated receiver next to its results.
\<close>

subsection \<open>Character classes of the regular expressions\<close>

text \<open>\<^verbatim>\<open>\s\<close> in Go's regexp syntax is \<^verbatim>\<open>[\t\n\f\r ]\<close>.\<close>

definition isSpace :: "char \<Rightarrow> bool" where
  "isSpace c = (c = CHR 0x09 \<or> c = CHR 0x0A \<or> c = CHR 0x0C \<or> c = CHR 0x0D \<or> c = CHR 0x20)"

definition isLetter :: "char \<Rightarrow> bool" where
  "isLetter c =
    (((65::nat) \<le> of_char c \<and> (of_char c :: nat) \<le> 90) \<or>
     ((97::nat) \<le> of_char c \<and> (of_char c :: nat) \<le> 122))"

definition isDigit :: "char \<Rightarrow> bool" where
  "isDigit c = ((48::nat) \<le> of_char c \<and> (of_char c :: nat) \<le> 57)"

text \<open>\<^verbatim>\<open>[_a-zA-Z]\<close> and \<^verbatim>\<open>[_a-zA-Z0-9]\<close>, the two classes of \<^verbatim>\<open>keyRE\<close>.\<close>

definition isKeyStart :: "char \<Rightarrow> bool" where
  "isKeyStart c = (c = CHR 0x5F \<or> isLetter c)"

definition isKeyChar :: "char \<Rightarrow> bool" where
  "isKeyChar c = (isKeyStart c \<or> isDigit c)"

definition dquote :: char where
  "dquote = CHR 0x22"

definition notQuote :: "char \<Rightarrow> bool" where
  "notQuote c = (c \<noteq> dquote)"

subsection \<open>The functions of package strings that the code calls\<close>

definition strings_HasPrefix :: "string \<Rightarrow> string \<Rightarrow> bool" where
  "strings_HasPrefix s p = prefix p s"

definition strings_TrimPrefix :: "string \<Rightarrow> string \<Rightarrow> string" where
  "strings_TrimPrefix s p = (if prefix p s then drop (length p) s else s)"

text \<open>
  \<^verbatim>\<open>strings.Cut(s, sep)\<close> splits at the first occurrence of \<open>sep\<close>; when there is
  none it returns \<open>(s, "", false)\<close>.
\<close>

fun strings_Cut :: "string \<Rightarrow> string \<Rightarrow> string \<times> string \<times> bool" where
  "strings_Cut [] sep = ([], [], sep = [])"
| "strings_Cut (c # cs) sep =
    (if prefix sep (c # cs) then ([], drop (length sep) (c # cs), True)
     else (case strings_Cut cs sep of (before, after, found) \<Rightarrow> (c # before, after, found)))"

subsection \<open>The regular expressions\<close>

text \<open>
  \<^verbatim>\<open>keyRE = [_a-zA-Z][_a-zA-Z0-9]*\<close>. \<open>keyRE_at s\<close> is the match of \<^verbatim>\<open>keyRE\<close>
  that starts at the front of \<open>s\<close> (the star is greedy), if there is one.
\<close>

definition keyRE_at :: "string \<Rightarrow> string option" where
  "keyRE_at s =
    (case s of
       [] \<Rightarrow> None
     | c # cs \<Rightarrow> if isKeyStart c then Some (c # takeWhile isKeyChar cs) else None)"

text \<open>
  \<^verbatim>\<open>evsKeyRE = regexp.MustCompile(keyRE)\<close> has no anchors, so
  \<^verbatim>\<open>evsKeyRE.MatchString(k)\<close> reports whether \<^verbatim>\<open>keyRE\<close> matches starting at
  some position of \<open>k\<close>.
\<close>

fun evsKeyRE_MatchString :: "string \<Rightarrow> bool" where
  "evsKeyRE_MatchString [] = (keyRE_at [] \<noteq> None)"
| "evsKeyRE_MatchString (c # cs) =
    (if keyRE_at (c # cs) \<noteq> None then True else evsKeyRE_MatchString cs)"

text \<open>
  \<^verbatim>\<open>subValueRE = \s*([_a-zA-Z][_a-zA-Z0-9]*)\s*=\s*"([^"]*)"\s*\<close>.

  \<open>subValueRE_at s\<close> is the match that starts at the front of \<open>s\<close>: the list
  \<open>[whole match, key, string content]\<close> that \<^verbatim>\<open>FindAllStringSubmatch\<close> reports
  for it, and the text after the match. Every starred class is followed by a
  character outside the class (a key character after \<^verbatim>\<open>\s*\<close>, a space or
  \<^verbatim>\<open>=\<close> after the key, a quote after \<^verbatim>\<open>[^"]*\<close>) or by the end of the pattern,
  so the greedy choice is the only one that can lead to a match and each star takes
  the longest run of its class.
\<close>

definition subValueRE_at :: "string \<Rightarrow> (string list \<times> string) option" where
  "subValueRE_at s =
    (let sp1 = takeWhile isSpace s in
     case dropWhile isSpace s of
       [] \<Rightarrow> None
     | c # r1 \<Rightarrow>
        if \<not> isKeyStart c then None
        else
          let key = c # takeWhile isKeyChar r1;
              r2 = dropWhile isKeyChar r1;
              sp2 = takeWhile isSpace r2
          in case dropWhile isSpace r2 of
               [] \<Rightarrow> None
             | e # r3 \<Rightarrow>
                if e \<noteq> CHR ''='' then None
                else
                  let sp3 = takeWhile isSpace r3
                  in case dropWhile isSpace r3 of
                       [] \<Rightarrow> None
                     | q # r4 \<Rightarrow>
                        if q \<noteq> dquote then None
                        else
                          let str = takeWhile notQuote r4
                          in case dropWhile notQuote r4 of
                               [] \<Rightarrow> None
                             | q' # r5 \<Rightarrow>
                                Some ([sp1 @ key @ sp2 @ [e] @ sp3 @ [q] @ str @ [q']
                                         @ takeWhile isSpace r5,
                                       key, str],
                                      dropWhile isSpace r5))"

text \<open>
  The leftmost match in \<open>s\<close>: the text skipped before it, the submatch list and the
  text after it.
\<close>

fun subValueRE_find :: "string \<Rightarrow> (string \<times> string list \<times> string) option" where
  "subValueRE_find [] = None"
| "subValueRE_find (c # cs) =
    (case subValueRE_at (c # cs) of
       Some (m, rest) \<Rightarrow> Some ([], m, rest)
     | None \<Rightarrow>
        (case subValueRE_find cs of
           None \<Rightarrow> None
         | Some (skipped, m, rest) \<Rightarrow> Some (c # skipped, m, rest)))"

text \<open>
  \<^verbatim>\<open>subValueRE.FindAllStringSubmatch(val, -1)\<close>: all successive non-overlapping
  matches. A match is never empty, so the search for the next one starts where the
  previous one ended.
\<close>

function FindAllStringSubmatch :: "string \<Rightarrow> string list list" where
  "FindAllStringSubmatch s =
    (case subValueRE_find s of
       None \<Rightarrow> []
     | Some (skipped, m, rest) \<Rightarrow> m # FindAllStringSubmatch rest)"
  by pat_completeness auto
termination
proof -
  have dw: "\<And>P (xs::string) y ys. dropWhile P xs = y # ys \<Longrightarrow> length ys < length xs"
  proof -
    fix P and xs :: string and y ys
    assume "dropWhile P xs = y # ys"
    then have "length (dropWhile P xs) = Suc (length ys)" by simp
    moreover have "length (dropWhile P xs) \<le> length xs" by (rule length_dropWhile_le)
    ultimately show "length ys < length xs" by simp
  qed
  have at: "\<And>s m rest. subValueRE_at s = Some (m, rest) \<Longrightarrow> length rest < length s"
  proof -
    fix s m rest
    assume "subValueRE_at s = Some (m, rest)"
    then obtain c r1 e r3 q r4 q' r5 where
          a: "dropWhile isSpace s = c # r1"
      and b: "dropWhile isSpace (dropWhile isKeyChar r1) = e # r3"
      and c: "dropWhile isSpace r3 = q # r4"
      and d: "dropWhile notQuote r4 = q' # r5"
      and r: "rest = dropWhile isSpace r5"
      by (auto simp: subValueRE_at_def Let_def split: list.splits if_splits)
    have "length rest \<le> length r5" using r by (simp add: length_dropWhile_le)
    also have "\<dots> < length r4" using dw [OF d] .
    also have "\<dots> < length r3" using dw [OF c] .
    also have "\<dots> < length (dropWhile isKeyChar r1)" using dw [OF b] .
    also have "\<dots> \<le> length r1" by (rule length_dropWhile_le)
    also have "\<dots> < length s" using dw [OF a] .
    finally show "length rest < length s" .
  qed
  have fnd: "\<And>s skipped m rest.
      subValueRE_find s = Some (skipped, m, rest) \<Longrightarrow> length rest < length s"
  proof -
    fix s skipped m rest
    show "subValueRE_find s = Some (skipped, m, rest) \<Longrightarrow> length rest < length s"
    proof (induction s arbitrary: skipped)
      case Nil
      then show ?case by simp
    next
      case (Cons c cs)
      show ?case
      proof (cases "subValueRE_at (c # cs)")
        case (Some p)
        with Cons.prems show ?thesis
          by (cases p) (auto dest: at)
      next
        case None
        with Cons.prems obtain sk where "subValueRE_find cs = Some (sk, m, rest)"
          by (auto split: option.splits)
        from Cons.IH [OF this] show ?thesis by simp
      qed
    qed
  qed
  show ?thesis
    by (relation "measure length") (auto dest: fnd)
qed

declare FindAllStringSubmatch.simps [simp del]

subsection \<open>The data model\<close>

text \<open>
  The indexes of the parts returned by \<^verbatim>\<open>FindAllStringSubmatch\<close> and the
  number of suggested alternatives.
\<close>

definition wholeValIdx :: nat where "wholeValIdx = 0"
definition keyIdx :: nat where "keyIdx = 1"
definition valIdx :: nat where "valIdx = 2"
definition expectedRegexpSubmatchLength :: nat where "expectedRegexpSubmatchLength = 3"

definition maxAltNames :: nat where "maxAltNames = 3"

text \<open>
  The errors the engine returns. The numbers are the 1-based positions \<^verbatim>\<open>i+1\<close>
  that the messages print with their ordinal suffix; a list of strings is the list of
  alternatives that the message offers (no alternative, no suffix to the message).
\<close>

datatype error =
    EmptyName
      \<comment> \<open>\<^verbatim>\<open>the name may not be empty\<close>\<close>
  | BadName string "string list"
      \<comment> \<open>\<^verbatim>\<open>bad name: %q, the name is not recognised%s\<close>\<close>
  | CannotGetAnyValues string
      \<comment> \<open>\<^verbatim>\<open>cannot get any values from the parameter: %q\<close>\<close>
  | CannotParseSubValue nat
      \<comment> \<open>\<^verbatim>\<open>cannot parse the %d%s sub-value, expecting name="string"\<close>\<close>
  | UnexpectedTextBefore string nat string
      \<comment> \<open>\<^verbatim>\<open>unexpected text: %q, before the %d%s entry: %q, ...\<close>\<close>
  | BadSubValueName string nat "string list"
      \<comment> \<open>\<^verbatim>\<open>bad sub-value name (%q), at the %d%s entry%s\<close>\<close>
  | SetTwice string string string nat
      \<comment> \<open>\<^verbatim>\<open>the value for %q has been set twice, with %q and then with %q (the %d%s entry)\<close>\<close>
  | MustBeSetButHasNot string
      \<comment> \<open>\<^verbatim>\<open>the subvalue for %q must be set but hasn't been\<close>\<close>
  | UnexpectedTextAtEnd string
      \<comment> \<open>\<^verbatim>\<open>unexpected text: %q, at the end of the parameter value\<close>\<close>
  | SetterError string
      \<comment> \<open>an error made by a setter or a post-action function\<close>

text \<open>\<^verbatim>\<open>param.ValueReq\<close>: whether a setter takes a value.\<close>

datatype ValueReq = Mandatory | Optional | NoValue

text \<open>
  The part of the interface \<^verbatim>\<open>param.Setter\<close> that the engine calls.
  \<open>SetWithVal name value\<close> acts on the scratch record and may fail;
  \<open>CheckSetter name\<close> yields the message of its panic, if it panics.
\<close>

record 'r param_Setter =
  SetWithVal :: "string \<Rightarrow> string \<Rightarrow> 'r \<Rightarrow> 'r \<times> error option"
  ValueReq :: ValueReq
  CheckSetter :: "string \<Rightarrow> string option"

type_synonym 'r MultiSetterActionFunc = "string \<Rightarrow> string \<Rightarrow> 'r \<Rightarrow> 'r \<times> error option"

record 'r EntryValSetter =
  Setter :: "'r param_Setter"
  PostActionFuncs :: "'r MultiSetterActionFunc list"
  MustBeSet :: bool

record 'r NamedValue =
  Name :: string
  Value :: 'r

record 'r MultiSetterBase =
  DfltEntryVal :: 'r
  EntryVal :: 'r
  EntryValSetterMap :: "(string \<times> 'r EntryValSetter) list"
  AVals :: "(string \<times> string) list"
  EntryValSMAliases :: "(string \<times> string) list"

text \<open>
  The two adapters embed the base; \<open>MValue\<close> and \<open>LValue\<close> are the containers
  their \<^verbatim>\<open>Value\<close> pointers refer to. The map is taken as initialised, which
  \<^verbatim>\<open>checkValue\<close> establishes at set-up (it panics on a nil pointer and replaces a
  nil map by an empty one).
\<close>

record 'r MapMultiSetter =
  MValue :: "string \<rightharpoonup> 'r"
  AllowHiddenMapEntries :: bool
  MBase :: "'r MultiSetterBase"

record 'r ListMultiSetter =
  LValue :: "'r NamedValue list"
  AllowInvalidListEntries :: bool
  LBase :: "'r MultiSetterBase"

text \<open>
  \<^verbatim>\<open>NamedValue[S, T]{}\<close>, the zero value; \<open>z\<close> is the zero value of the record
  type \<^verbatim>\<open>T\<close>.
\<close>

definition zeroNamedValue :: "'r \<Rightarrow> 'r NamedValue" where
  "zeroNamedValue z = \<lparr>Name = [], Value = z\<rparr>"

text \<open>
  \<^verbatim>\<open>strdist.Finder.FindNStrLike(n, s, pop...)\<close> of the default case-blind cosine
  finder, a parameter of the model.
\<close>

type_synonym finder = "nat \<Rightarrow> string \<Rightarrow> string list \<Rightarrow> string list"

subsection \<open>Suggestions and the name check\<close>

text \<open>
  \<^verbatim>\<open>SuggestAlternatives\<close> returns the empty string when the finder finds nothing and
  \<^verbatim>\<open>, did you mean ...\<close> with the quoted alternatives otherwise; the model returns
  the alternatives that the string lists.
\<close>

definition SuggestAlternatives :: "finder \<Rightarrow> nat \<Rightarrow> string \<Rightarrow> string list \<Rightarrow> string list" where
  "SuggestAlternatives FindNStrLike n s pop =
    (let alts = FindNStrLike n s pop in if length alts = 0 then [] else alts)"

text \<open>\<^verbatim>\<open>psetter.AllowedVals.ValueAllowed\<close>: the name is a key of the map.\<close>

definition ValueAllowed :: "(string \<times> string) list \<Rightarrow> string \<Rightarrow> bool" where
  "ValueAllowed avals name = (map_of avals name \<noteq> None)"

definition checkParamPartName :: "finder \<Rightarrow> 'r MultiSetterBase \<Rightarrow> string \<Rightarrow> error option" where
  "checkParamPartName F s name =
    (if name = [] then Some EmptyName
     else if length (AVals s) > 0 \<and> \<not> ValueAllowed (AVals s) name
     then Some (BadName name (SuggestAlternatives F maxAltNames name (map fst (AVals s))))
     else None)"

subsection \<open>Resolving a sub-value name\<close>

definition getSetter ::
  "finder \<Rightarrow> 'r MultiSetterBase \<Rightarrow> nat \<Rightarrow> string \<Rightarrow> string \<times> (error + 'r EntryValSetter)" where
  "getSetter F s i evKey =
    (let notFound =
           (evKey,
            Inl (BadSubValueName evKey (i + 1)
                  (SuggestAlternatives F maxAltNames evKey
                     (map fst (EntryValSetterMap s) @ map fst (EntryValSMAliases s)))))
     in case map_of (EntryValSetterMap s) evKey of
          Some evs \<Rightarrow> (evKey, Inr evs)
        | None \<Rightarrow>
           (case map_of (EntryValSMAliases s) evKey of
              None \<Rightarrow> notFound
            | Some aliasKey \<Rightarrow>
               (case map_of (EntryValSetterMap s) aliasKey of
                  Some evs \<Rightarrow> (aliasKey, Inr evs)
                | None \<Rightarrow> notFound)))"

subsection \<open>Applying one sub-value\<close>

text \<open>The loop over \<^verbatim>\<open>evs.PostActionFuncs\<close>, which stops at the first error.\<close>

fun runPostActionFuncs ::
  "'r MultiSetterActionFunc list \<Rightarrow> string \<Rightarrow> string \<Rightarrow> 'r \<Rightarrow> 'r \<times> error option" where
  "runPostActionFuncs [] evKey evVal r = (r, None)"
| "runPostActionFuncs (f # fs) evKey evVal r =
    (case f evKey evVal r of
       (r', Some err) \<Rightarrow> (r', Some err)
     | (r', None) \<Rightarrow> runPostActionFuncs fs evKey evVal r')"

text \<open>
  \<open>setWithSubval\<close> returns the updated receiver, the updated map \<^verbatim>\<open>dups\<close> (a Go
  map is shared with the caller), and its two results: the remaining text and the
  error.
\<close>

definition setWithSubval ::
  "finder \<Rightarrow> 'r MultiSetterBase \<Rightarrow> string \<Rightarrow> nat \<Rightarrow> string list \<Rightarrow> (string \<rightharpoonup> string)
    \<Rightarrow> 'r MultiSetterBase \<times> (string \<rightharpoonup> string) \<times> string \<times> error option" where
  "setWithSubval F s wholeValue i sVal dups =
    (if length sVal \<noteq> expectedRegexpSubmatchLength
     then (s, dups, wholeValue, Some (CannotParseSubValue (i + 1)))
     else
       let wholeSubValue = sVal ! wholeValIdx in
       if \<not> strings_HasPrefix wholeValue wholeSubValue
       then (case strings_Cut wholeValue wholeSubValue of
               (badVal, _, _) \<Rightarrow>
                 (s, dups, wholeValue, Some (UnexpectedTextBefore badVal (i + 1) wholeSubValue)))
       else
         let wholeValue' = strings_TrimPrefix wholeValue wholeSubValue;
             evVal = sVal ! valIdx
         in case getSetter F s i (sVal ! keyIdx) of
              (evKey, Inl err) \<Rightarrow> (s, dups, wholeValue', Some err)
            | (evKey, Inr evs) \<Rightarrow>
               (case dups evKey of
                  Some prevVal \<Rightarrow>
                    (s, dups, wholeValue', Some (SetTwice evKey prevVal wholeSubValue (i + 1)))
                | None \<Rightarrow>
                   let dups' = dups(evKey \<mapsto> wholeSubValue) in
                   (case SetWithVal (Setter evs) evKey evVal (EntryVal s) of
                      (r, Some err) \<Rightarrow> (s\<lparr>EntryVal := r\<rparr>, dups', wholeValue', Some err)
                    | (r, None) \<Rightarrow>
                       (case runPostActionFuncs (PostActionFuncs evs) evKey evVal r of
                          (r', err) \<Rightarrow> (s\<lparr>EntryVal := r'\<rparr>, dups', wholeValue', err)))))"

subsection \<open>GetNamedValue\<close>

text \<open>
  The loop \<^verbatim>\<open>for i, sVal := range subValues\<close>: it returns at the first error.
\<close>

fun subValuesLoop ::
  "finder \<Rightarrow> 'r MultiSetterBase \<Rightarrow> string \<Rightarrow> nat \<Rightarrow> string list list \<Rightarrow> (string \<rightharpoonup> string)
    \<Rightarrow> 'r MultiSetterBase \<times> (string \<rightharpoonup> string) \<times> string \<times> error option" where
  "subValuesLoop F s val i [] dups = (s, dups, val, None)"
| "subValuesLoop F s val i (sVal # rest) dups =
    (case setWithSubval F s val i sVal dups of
       (s', dups', val', Some err) \<Rightarrow> (s', dups', val', Some err)
     | (s', dups', val', None) \<Rightarrow> subValuesLoop F s' val' (Suc i) rest dups')"

text \<open>
  The loop \<^verbatim>\<open>for evKey, evs := range s.EntryValSetterMap\<close>: the first entry, in
  the order of the iteration, that must be set and is not in \<^verbatim>\<open>dups\<close> is the one
  reported.
\<close>

fun mustBeSetLoop :: "(string \<times> 'r EntryValSetter) list \<Rightarrow> (string \<rightharpoonup> string) \<Rightarrow> error option" where
  "mustBeSetLoop [] dups = None"
| "mustBeSetLoop ((evKey, evs) # rest) dups =
    (if MustBeSet evs \<and> dups evKey = None then Some (MustBeSetButHasNot evKey)
     else mustBeSetLoop rest dups)"

definition GetNamedValue ::
  "finder \<Rightarrow> 'r \<Rightarrow> 'r MultiSetterBase \<Rightarrow> string
    \<Rightarrow> 'r MultiSetterBase \<times> 'r NamedValue \<times> error option" where
  "GetNamedValue F z s paramVal =
    (case strings_Cut paramVal ''='' of
       (name, val, ok) \<Rightarrow>
        (case checkParamPartName F s name of
           Some err \<Rightarrow> (s, zeroNamedValue z, Some err)
         | None \<Rightarrow>
            if \<not> ok then (s, \<lparr>Name = name, Value = DfltEntryVal s\<rparr>, None)
            else
              let s1 = s\<lparr>EntryVal := DfltEntryVal s\<rparr>;
                  subValues = FindAllStringSubmatch val
              in if length subValues = 0
                 then (s1, zeroNamedValue z, Some (CannotGetAnyValues val))
                 else
                   (case subValuesLoop F s1 val 0 subValues Map.empty of
                      (s2, dups, val', Some err) \<Rightarrow> (s2, zeroNamedValue z, Some err)
                    | (s2, dups, val', None) \<Rightarrow>
                       (case mustBeSetLoop (EntryValSetterMap s2) dups of
                          Some err \<Rightarrow> (s2, zeroNamedValue z, Some err)
                        | None \<Rightarrow>
                           if val' \<noteq> []
                           then (s2, zeroNamedValue z, Some (UnexpectedTextAtEnd val'))
                           else (s2, \<lparr>Name = name, Value = EntryVal s2\<rparr>, None)))))"

subsection \<open>The storage adapters\<close>

definition Map_SetWithVal ::
  "finder \<Rightarrow> 'r \<Rightarrow> 'r MapMultiSetter \<Rightarrow> string \<Rightarrow> 'r MapMultiSetter \<times> error option" where
  "Map_SetWithVal F z ms paramVal =
    (case GetNamedValue F z (MBase ms) paramVal of
       (b, nv, Some err) \<Rightarrow> (ms\<lparr>MBase := b\<rparr>, Some err)
     | (b, nv, None) \<Rightarrow> (ms\<lparr>MBase := b, MValue := (MValue ms)(Name nv \<mapsto> Value nv)\<rparr>, None))"

definition List_SetWithVal ::
  "finder \<Rightarrow> 'r \<Rightarrow> 'r ListMultiSetter \<Rightarrow> string \<Rightarrow> 'r ListMultiSetter \<times> error option" where
  "List_SetWithVal F z ls paramVal =
    (case GetNamedValue F z (LBase ls) paramVal of
       (b, nv, Some err) \<Rightarrow> (ls\<lparr>LBase := b\<rparr>, Some err)
     | (b, nv, None) \<Rightarrow> (ls\<lparr>LBase := b, LValue := LValue ls @ [nv]\<rparr>, None))"

text \<open>\<open>n\<close> successive calls of the list adapter with the same parameter value.\<close>

fun List_SetWithVal_times ::
  "finder \<Rightarrow> 'r \<Rightarrow> 'r ListMultiSetter \<Rightarrow> string \<Rightarrow> nat \<Rightarrow> 'r ListMultiSetter" where
  "List_SetWithVal_times F z ls p 0 = ls"
| "List_SetWithVal_times F z ls p (Suc n) =
    List_SetWithVal_times F z (fst (List_SetWithVal F z ls p)) p n"

subsection \<open>The configuration checks\<close>

datatype panic =
    NoSubValueSetter
      \<comment> \<open>\<^verbatim>\<open>there must be at least one sub-value setter\<close>\<close>
  | BadKey string
      \<comment> \<open>\<^verbatim>\<open>bad key %q: it should be a letter followed by zero or more letters or numbers\<close>\<close>
  | MustTakeValue string
      \<comment> \<open>\<^verbatim>\<open>bad entry-value setter: %q: it must take a value\<close>\<close>
  | SetterCheckFailed string string
      \<comment> \<open>the panic of the setter's own \<^verbatim>\<open>CheckSetter\<close>\<close>
  | AliasIsSubvalName string
      \<comment> \<open>\<^verbatim>\<open>the alias %q is the same as a subval name\<close>\<close>
  | AliasWithoutTarget string string
      \<comment> \<open>\<^verbatim>\<open>the alias %q (= %q) does not refer to a subval name\<close>\<close>
  | BadAllowedValues string
      \<comment> \<open>the error of \<^verbatim>\<open>AVals.Check()\<close>\<close>

text \<open>The body of the loop of \<^verbatim>\<open>checkEntryValSetters\<close>, in the order of the range.\<close>

fun checkEntryValSettersLoop :: "string \<Rightarrow> (string \<times> 'r EntryValSetter) list \<Rightarrow> panic option" where
  "checkEntryValSettersLoop intro [] = None"
| "checkEntryValSettersLoop intro ((k, evs) # rest) =
    (if \<not> evsKeyRE_MatchString k then Some (BadKey k)
     else if ValueReq (Setter evs) = NoValue then Some (MustTakeValue k)
     else (case CheckSetter (Setter evs) (intro @ ''.SubTypeSetters['' @ k @ '']'') of
             Some msg \<Rightarrow> Some (SetterCheckFailed k msg)
           | None \<Rightarrow> checkEntryValSettersLoop intro rest))"

definition checkEntryValSetters :: "string \<Rightarrow> 'r MultiSetterBase \<Rightarrow> panic option" where
  "checkEntryValSetters intro s =
    (if length (EntryValSetterMap s) = 0 then Some NoSubValueSetter
     else checkEntryValSettersLoop intro (EntryValSetterMap s))"

fun checkAliasesLoop ::
  "(string \<times> 'r EntryValSetter) list \<Rightarrow> (string \<times> string) list \<Rightarrow> panic option" where
  "checkAliasesLoop evsm [] = None"
| "checkAliasesLoop evsm ((k, v) # rest) =
    (if map_of evsm k \<noteq> None then Some (AliasIsSubvalName k)
     else if map_of evsm v = None then Some (AliasWithoutTarget k v)
     else checkAliasesLoop evsm rest)"

definition checkEntryValSetterMapAliases :: "string \<Rightarrow> 'r MultiSetterBase \<Rightarrow> panic option" where
  "checkEntryValSetterMapAliases intro s =
    checkAliasesLoop (EntryValSetterMap s) (EntryValSMAliases s)"

text \<open>
  \<^verbatim>\<open>AVals.Check()\<close> belongs to package psetter; \<open>AValsCheck\<close> stands for it and
  yields the message of its error.
\<close>

definition checkAllowedValues ::
  "((string \<times> string) list \<Rightarrow> string option) \<Rightarrow> string \<Rightarrow> 'r MultiSetterBase \<Rightarrow> panic option" where
  "checkAllowedValues AValsCheck intro s =
    (if length (AVals s) = 0 then None
     else (case AValsCheck (AVals s) of Some msg \<Rightarrow> Some (BadAllowedValues msg) | None \<Rightarrow> None))"

definition CheckMultiSetter ::
  "((string \<times> string) list \<Rightarrow> string option) \<Rightarrow> string \<Rightarrow> 'r MultiSetterBase \<Rightarrow> panic option" where
  "CheckMultiSetter AValsCheck intro s =
    (case checkAllowedValues AValsCheck intro s of
       Some p \<Rightarrow> Some p
     | None \<Rightarrow>
        (case checkEntryValSetters intro s of
           Some p \<Rightarrow> Some p
         | None \<Rightarrow> checkEntryValSetterMapAliases intro s))"

subsection \<open>The specification's vocabulary\<close>

text \<open>
  The identifier grammar of the specification: the first character is a letter or an
  underscore, every remaining character is a letter, a digit or an underscore.
\<close>

definition isIdentifier :: "string \<Rightarrow> bool" where
  "isIdentifier k = (case k of [] \<Rightarrow> False | c # cs \<Rightarrow> isKeyStart c \<and> list_all isKeyChar cs)"

text \<open>
  The resolution order of the specification: an exact match among the canonical keys,
  else an alias whose target is a canonical key; the result is the canonical key with
  its descriptor.
\<close>

definition resolve :: "'r MultiSetterBase \<Rightarrow> string \<Rightarrow> (string \<times> 'r EntryValSetter) option" where
  "resolve s evKey =
    (case map_of (EntryValSetterMap s) evKey of
       Some evs \<Rightarrow> Some (evKey, evs)
     | None \<Rightarrow>
        (case map_of (EntryValSMAliases s) evKey of
           None \<Rightarrow> None
         | Some target \<Rightarrow>
            (case map_of (EntryValSetterMap s) target of
               Some evs \<Rightarrow> Some (target, evs)
             | None \<Rightarrow> None)))"

text \<open>
  What one resolved assignment does to the scratch record when nothing fails before
  it: the setter, then the post-action functions in order.
\<close>

definition applyEntry :: "'r EntryValSetter \<Rightarrow> string \<Rightarrow> string \<Rightarrow> 'r \<Rightarrow> 'r \<times> error option" where
  "applyEntry evs evKey evVal r =
    (case SetWithVal (Setter evs) evKey evVal r of
       (r', Some err) \<Rightarrow> (r', Some err)
     | (r', None) \<Rightarrow> runPostActionFuncs (PostActionFuncs evs) evKey evVal r')"

text \<open>
  The record that a list of raw assignments \<open>(key, value)\<close> builds from \<open>r\<close>:
  every key resolves and every setter and post-action function succeeds, or there is
  none.
\<close>

fun applyAssignments :: "'r MultiSetterBase \<Rightarrow> (string \<times> string) list \<Rightarrow> 'r \<Rightarrow> 'r option" where
  "applyAssignments s [] r = Some r"
| "applyAssignments s ((k, v) # kvs) r =
    (case resolve s k of
       None \<Rightarrow> None
     | Some (c, evs) \<Rightarrow>
        (case applyEntry evs c v r of
           (r', Some err) \<Rightarrow> None
         | (r', None) \<Rightarrow> applyAssignments s kvs r'))"

text \<open>The canonical key that a raw key stands for (itself when it does not resolve).\<close>

definition canonical :: "'r MultiSetterBase \<Rightarrow> string \<Rightarrow> string" where
  "canonical s k = (case resolve s k of Some (c, evs) \<Rightarrow> c | None \<Rightarrow> k)"

text \<open>The three parts of one element of the result of \<^verbatim>\<open>FindAllStringSubmatch\<close>.\<close>

definition subKey :: "string list \<Rightarrow> string" where "subKey sVal = sVal ! keyIdx"
definition subVal :: "string list \<Rightarrow> string" where "subVal sVal = sVal ! valIdx"
definition subWhole :: "string list \<Rightarrow> string" where "subWhole sVal = sVal ! wholeValIdx"


definition subKeyVal :: "string list \<Rightarrow> string \<times> string" where
  "subKeyVal sVal = (subKey sVal, subVal sVal)"

text \<open>
  The entries that the loop adds to \<^verbatim>\<open>dups\<close> for a list of matches: the canonical
  key of each with the whole text of the match.
\<close>

definition seenAfter ::
  "'r MultiSetterBase \<Rightarrow> string list list \<Rightarrow> (string \<times> string) list" where
  "seenAfter s ts = map (\<lambda>t. (canonical s (subKey t), subWhole t)) ts"


text \<open>
  A well-formed field list of the specification is a sequence of assignments
  \<^verbatim>\<open>ws* key '=' '"' text-without-quote '"' ws*\<close>. The record below has the parts
  of one assignment; the pattern of the code also allows white space on both sides of
  \<^verbatim>\<open>=\<close>, so the grammar of the specification is the case where \<open>sp2\<close> and
  \<open>sp3\<close> are empty.
\<close>

record assignment =
  sp1 :: string
  akey :: string
  sp2 :: string
  sp3 :: string
  astr :: string
  sp4 :: string

definition render :: "assignment \<Rightarrow> string" where
  "render a =
    sp1 a @ akey a @ sp2 a @ ''='' @ sp3 a @ [dquote] @ astr a @ [dquote] @ sp4 a"

definition wellFormed :: "assignment \<Rightarrow> bool" where
  "wellFormed a =
    (list_all isSpace (sp1 a) \<and> isIdentifier (akey a) \<and> list_all isSpace (sp2 a)
     \<and> list_all isSpace (sp3 a) \<and> list_all notQuote (astr a) \<and> list_all isSpace (sp4 a))"

text \<open>The raw key and the raw value of an assignment.\<close>

definition rawAssignment :: "assignment \<Rightarrow> string \<times> string" where
  "rawAssignment a = (akey a, astr a)"


subsection \<open>Example configurations\<close>

text \<open>
  A record with two string fields and a flag. The setter of \<open>a\<close> stores its value;
  the setter of \<open>b\<close> refuses the empty string and has a post-action function that
  raises the flag (as \<^verbatim>\<open>threshold\<close> does with \<^verbatim>\<open>useGivenThreshold\<close> in
  \<^verbatim>\<open>addParams.go\<close>); \<open>b\<close> must be set and has the alias \<open>bee\<close>.
\<close>

record exampleVal =
  fieldA :: string
  fieldB :: string
  touchedB :: bool

definition exampleFinder :: finder where
  "exampleFinder n s pop = take n pop"

definition exampleZero :: exampleVal where
  "exampleZero = \<lparr>fieldA = [], fieldB = [], touchedB = False\<rparr>"

definition exampleDflt :: exampleVal where
  "exampleDflt = \<lparr>fieldA = ''da'', fieldB = ''db'', touchedB = False\<rparr>"

definition setterA :: "exampleVal param_Setter" where
  "setterA =
    \<lparr>SetWithVal = (\<lambda>name v r. (r\<lparr>fieldA := v\<rparr>, None)),
     ValueReq = Mandatory,
     CheckSetter = (\<lambda>name. None)\<rparr>"

definition setterB :: "exampleVal param_Setter" where
  "setterB =
    \<lparr>SetWithVal =
       (\<lambda>name v r. if v = [] then (r, Some (SetterError ''empty'')) else (r\<lparr>fieldB := v\<rparr>, None)),
     ValueReq = Mandatory,
     CheckSetter = (\<lambda>name. None)\<rparr>"

definition entryA :: "exampleVal EntryValSetter" where
  "entryA = \<lparr>Setter = setterA, PostActionFuncs = [], MustBeSet = False\<rparr>"

definition entryB :: "exampleVal EntryValSetter" where
  "entryB =
    \<lparr>Setter = setterB,
     PostActionFuncs = [\<lambda>name v r. (r\<lparr>touchedB := True\<rparr>, None)],
     MustBeSet = True\<rparr>"

definition exampleBase :: "exampleVal MultiSetterBase" where
  "exampleBase =
    \<lparr>DfltEntryVal = exampleDflt,
     EntryVal = exampleZero,
     EntryValSetterMap = [(''a'', entryA), (''b'', entryB)],
     AVals = [(''foo'', ''the foo''), (''bar'', ''the bar'')],
     EntryValSMAliases = [(''bee'', ''b'')]\<rparr>"

text \<open>One optional field, no allow-list, no alias.\<close>

definition optionalBase :: "exampleVal MultiSetterBase" where
  "optionalBase =
    \<lparr>DfltEntryVal = exampleDflt,
     EntryVal = exampleZero,
     EntryValSetterMap = [(''a'', entryA)],
     AVals = [],
     EntryValSMAliases = []\<rparr>"

text \<open>A descriptor table whose only key is not an identifier.\<close>

definition badKeyBase :: "exampleVal MultiSetterBase" where
  "badKeyBase =
    \<lparr>DfltEntryVal = exampleDflt,
     EntryVal = exampleZero,
     EntryValSetterMap = [(''9-a b'', entryA)],
     AVals = [],
     EntryValSMAliases = []\<rparr>"

definition exampleMap :: "exampleVal MapMultiSetter" where
  "exampleMap =
    \<lparr>MValue = [''bar'' \<mapsto> exampleDflt], AllowHiddenMapEntries = False, MBase = exampleBase\<rparr>"

definition exampleList :: "exampleVal ListMultiSetter" where
  "exampleList =
    \<lparr>LValue = [\<lparr>Name = ''bar'', Value = exampleDflt\<rparr>], AllowInvalidListEntries = False,
     LBase = exampleBase\<rparr>"

text \<open>The field list \<^verbatim>\<open> a="1" bee = "x y"\<close>.\<close>

definition exampleAssignments :: "assignment list" where
  "exampleAssignments =
    [\<lparr>sp1 = '' '', akey = ''a'', sp2 = [], sp3 = [], astr = ''1'', sp4 = '' ''\<rparr>,
     \<lparr>sp1 = [], akey = ''bee'', sp2 = '' '', sp3 = '' '', astr = ''x y'', sp4 = []\<rparr>]"

section \<open>Properties\<close>

lemmas char_class_defs =
  isSpace_def isKeyStart_def isKeyChar_def isLetter_def isDigit_def dquote_def notQuote_def

lemmas engine_defs =
  GetNamedValue_def checkParamPartName_def ValueAllowed_def setWithSubval_def getSetter_def
  SuggestAlternatives_def maxAltNames_def wholeValIdx_def keyIdx_def valIdx_def
  expectedRegexpSubmatchLength_def strings_HasPrefix_def strings_TrimPrefix_def
  zeroNamedValue_def FindAllStringSubmatch.simps subValueRE_at_def Let_def

lemmas example_defs =
  exampleBase_def optionalBase_def exampleDflt_def exampleZero_def exampleFinder_def
  setterA_def setterB_def entryA_def entryB_def exampleMap_def exampleList_def

subsection \<open>Strings and the tokenizer\<close>

lemma strings_Cut_found:
  "CHR ''='' \<notin> set name \<Longrightarrow> strings_Cut (name @ CHR ''='' # val) ''='' = (name, val, True)"
  by (induction name) auto

lemma strings_Cut_not_found:
  "CHR ''='' \<notin> set p \<Longrightarrow> strings_Cut p ''='' = (p, [], False)"
  by (induction p) auto

lemma evsKeyRE_MatchString_iff: "evsKeyRE_MatchString k = list_ex isKeyStart k"
  by (induction k) (auto simp: keyRE_at_def)

lemma FindAll_Nil_iff: "FindAllStringSubmatch val = [] \<longleftrightarrow> subValueRE_find val = None"
  by (subst FindAllStringSubmatch.simps) (auto split: option.splits)

lemma subValueRE_at_spaces: "list_all isSpace val \<Longrightarrow> subValueRE_at val = None"
proof -
  assume "list_all isSpace val"
  then have "dropWhile isSpace val = []" by (simp add: list_all_iff)
  then show ?thesis by (simp add: subValueRE_at_def del: dropWhile_eq_Nil_conv)
qed

lemma subValueRE_find_spaces: "list_all isSpace val \<Longrightarrow> subValueRE_find val = None"
  by (induction val) (simp_all add: subValueRE_at_spaces)

lemma FindAll_spaces: "list_all isSpace val \<Longrightarrow> FindAllStringSubmatch val = []"
  by (simp add: FindAll_Nil_iff subValueRE_find_spaces)

subsection \<open>Only the scratch record changes\<close>

lemma checkParamPartName_EntryVal [simp]:
  "checkParamPartName F (s\<lparr>EntryVal := r\<rparr>) name = checkParamPartName F s name"
  by (simp add: checkParamPartName_def)

lemma getSetter_EntryVal [simp]:
  "getSetter F (s\<lparr>EntryVal := r\<rparr>) i k = getSetter F s i k"
  by (simp add: getSetter_def Let_def split: option.splits)

lemma setWithSubval_frame:
  "setWithSubval F s val i sVal dups = (s', dups', val', e) \<Longrightarrow> s' = s\<lparr>EntryVal := EntryVal s'\<rparr>"
  by (auto simp: setWithSubval_def Let_def split: if_splits prod.splits sum.splits option.splits)

lemma subValuesLoop_frame:
  "subValuesLoop F s val i svs dups = (s', dups', val', e) \<Longrightarrow> s' = s\<lparr>EntryVal := EntryVal s'\<rparr>"
proof (induction svs arbitrary: s val i dups)
  case Nil
  then show ?case by simp
next
  case (Cons sv svs)
  obtain s1 d1 v1 e1 where st: "setWithSubval F s val i sv dups = (s1, d1, v1, e1)"
    by (metis prod_cases4)
  have f1: "s1 = s\<lparr>EntryVal := EntryVal s1\<rparr>" by (rule setWithSubval_frame [OF st])
  show ?case
  proof (cases e1)
    case None
    with Cons.prems st have "subValuesLoop F s1 v1 (Suc i) svs d1 = (s', dups', val', e)" by simp
    from Cons.IH [OF this] have "s' = s1\<lparr>EntryVal := EntryVal s'\<rparr>" .
    with f1 show ?thesis
      by (metis MultiSetterBase.update_convs(2) MultiSetterBase.surjective
          MultiSetterBase.select_convs)
  next
    case (Some a)
    with Cons.prems st f1 show ?thesis by auto
  qed
qed

lemma GetNamedValue_frame:
  "GetNamedValue F z s p = (s', nv, e) \<Longrightarrow> s' = s\<lparr>EntryVal := EntryVal s'\<rparr>"
proof -
  assume g: "GetNamedValue F z s p = (s', nv, e)"
  obtain name val ok where cut: "strings_Cut p ''='' = (name, val, ok)"
    by (metis prod_cases3)
  let ?s1 = "s\<lparr>EntryVal := DfltEntryVal s\<rparr>"
  obtain s2 d2 v2 e2 where lp:
    "subValuesLoop F ?s1 val 0 (FindAllStringSubmatch val) Map.empty = (s2, d2, v2, e2)"
    by (metis prod_cases4)
  have "s2 = ?s1\<lparr>EntryVal := EntryVal s2\<rparr>" by (rule subValuesLoop_frame [OF lp])
  then have s2: "s2 = s\<lparr>EntryVal := EntryVal s2\<rparr>" by simp
  from g cut lp have "s' = s \<or> s' = ?s1 \<or> s' = s2"
    by (auto simp: GetNamedValue_def Let_def split: option.splits if_splits)
  then show ?thesis using s2 by auto
qed

lemma GetNamedValue_ignores_EntryVal:
  "snd (GetNamedValue F z (s\<lparr>EntryVal := r\<rparr>) p) = snd (GetNamedValue F z s p)"
  by (simp add: GetNamedValue_def Let_def split: prod.splits option.splits)

subsection \<open>Failure is atomic for the caller\<close>

text \<open>
  Claim C2. Whenever \<^verbatim>\<open>GetNamedValue\<close> returns an error, at whatever step, the
  \<^verbatim>\<open>NamedValue\<close> it returns with it is the zero value; and whenever the
  \<^verbatim>\<open>SetWithVal\<close> of the map-based or of the list-based setter returns an error, the
  map or the slice that its \<^verbatim>\<open>Value\<close> points to is as it was before the call.
\<close>

theorem failure_leaves_no_trace:
  "(GetNamedValue F z s p = (s', nv, Some err) \<longrightarrow> nv = zeroNamedValue z)
   \<and> (Map_SetWithVal F z ms p = (ms', Some errm) \<longrightarrow> MValue ms' = MValue ms)
   \<and> (List_SetWithVal F z ls p = (ls', Some errl) \<longrightarrow> LValue ls' = LValue ls)"
proof (intro conjI impI)
  assume "GetNamedValue F z s p = (s', nv, Some err)"
  then show "nv = zeroNamedValue z"
    by (auto simp: GetNamedValue_def Let_def split: prod.splits option.splits if_splits)
next
  assume "Map_SetWithVal F z ms p = (ms', Some errm)"
  then show "MValue ms' = MValue ms"
    by (auto simp: Map_SetWithVal_def split: prod.splits option.splits)
next
  assume "List_SetWithVal F z ls p = (ls', Some errl)"
  then show "LValue ls' = LValue ls"
    by (auto simp: List_SetWithVal_def split: prod.splits option.splits)
qed

text \<open>
  An unknown sub-value name in second position, after the setter of \<open>a\<close> has run:
  the error comes with the zero value and both containers keep their one entry.
\<close>

theorem failure_leaves_no_trace_witness:
  "GetNamedValue exampleFinder exampleZero exampleBase ''foo=a=\"1\" c=\"2\"''
     = (exampleBase\<lparr>EntryVal := exampleDflt\<lparr>fieldA := ''1''\<rparr>\<rparr>, zeroNamedValue exampleZero,
        Some (BadSubValueName ''c'' 2 [''a'', ''b'', ''bee'']))
   \<and> snd (Map_SetWithVal exampleFinder exampleZero exampleMap ''foo=a=\"1\" c=\"2\"'')
        = Some (BadSubValueName ''c'' 2 [''a'', ''b'', ''bee''])
   \<and> MValue (fst (Map_SetWithVal exampleFinder exampleZero exampleMap ''foo=a=\"1\" c=\"2\"''))
        = MValue exampleMap
   \<and> snd (List_SetWithVal exampleFinder exampleZero exampleList ''foo=a=\"1\" c=\"2\"'')
        = Some (BadSubValueName ''c'' 2 [''a'', ''b'', ''bee''])
   \<and> LValue (fst (List_SetWithVal exampleFinder exampleZero exampleList ''foo=a=\"1\" c=\"2\"''))
        = LValue exampleList"
proof -
  let ?p = "''foo=a=\"1\" c=\"2\"''"
  let ?e = "BadSubValueName ''c'' 2 [''a'', ''b'', ''bee'']"
  let ?s = "exampleBase\<lparr>EntryVal := exampleDflt\<lparr>fieldA := ''1''\<rparr>\<rparr>"
  have st: "fst (GetNamedValue exampleFinder exampleZero exampleBase ?p) = ?s"
    and er: "snd (snd (GetNamedValue exampleFinder exampleZero exampleBase ?p)) = Some ?e"
    by (simp_all add: engine_defs example_defs char_class_defs)
  then obtain nv where g: "GetNamedValue exampleFinder exampleZero exampleBase ?p = (?s, nv, Some ?e)"
    by (metis prod.collapse)
  have nv: "nv = zeroNamedValue exampleZero"
    using failure_leaves_no_trace [where F = exampleFinder and z = exampleZero and s = exampleBase
                                     and p = ?p and s' = ?s and nv = nv and err = ?e] g by blast
  have m: "Map_SetWithVal exampleFinder exampleZero exampleMap ?p
            = (exampleMap\<lparr>MBase := ?s\<rparr>, Some ?e)"
    using g by (simp add: Map_SetWithVal_def exampleMap_def)
  have l: "List_SetWithVal exampleFinder exampleZero exampleList ?p
            = (exampleList\<lparr>LBase := ?s\<rparr>, Some ?e)"
    using g by (simp add: List_SetWithVal_def exampleList_def)
  have "MValue (exampleMap\<lparr>MBase := ?s\<rparr>) = MValue exampleMap"
    using failure_leaves_no_trace [where F = exampleFinder and z = exampleZero and ms = exampleMap
                                     and p = ?p and ms' = "exampleMap\<lparr>MBase := ?s\<rparr>" and errm = ?e]
      m by blast
  moreover have "LValue (exampleList\<lparr>LBase := ?s\<rparr>) = LValue exampleList"
    using failure_leaves_no_trace [where F = exampleFinder and z = exampleZero and ls = exampleList
                                     and p = ?p and ls' = "exampleList\<lparr>LBase := ?s\<rparr>" and errl = ?e]
      l by blast
  ultimately show ?thesis using g nv m l by simp
qed

subsection \<open>A bare name and the mandatory fields\<close>

text \<open>
  Claim C3 says that a parameter value without \<^verbatim>\<open>=\<close> fails when a field must be
  set. The code returns before the loop over the mandatory fields: \<open>b\<close> must be set
  in \<^const>\<open>exampleBase\<close>, the loop run on the empty \<^verbatim>\<open>dups\<close> would report it, and
  yet \<^verbatim>\<open>GetNamedValue\<close> returns the default record under the name, with no error.
\<close>

theorem bare_name_skips_mandatory_check:
  "GetNamedValue exampleFinder exampleZero exampleBase ''foo''
     = (exampleBase, \<lparr>Name = ''foo'', Value = exampleDflt\<rparr>, None)
   \<and> map_of (EntryValSetterMap exampleBase) ''b'' = Some entryB
   \<and> MustBeSet entryB
   \<and> mustBeSetLoop (EntryValSetterMap exampleBase) Map.empty = Some (MustBeSetButHasNot ''b'')"
  by (simp add: engine_defs example_defs char_class_defs)

subsection \<open>The key check of the configuration\<close>

text \<open>
  Claim C5 says that the configuration check panics for every key that is not an
  identifier. The pattern is not anchored, so a key passes as soon as one of its
  characters is a letter or an underscore: the key \<^verbatim>\<open>9-a b\<close> is not an identifier
  and \<^verbatim>\<open>checkEntryValSetters\<close> does not panic on a table that has it.
\<close>

theorem unanchored_key_check_accepts_bad_key:
  "\<not> isIdentifier ''9-a b''
   \<and> evsKeyRE_MatchString ''9-a b''
   \<and> checkEntryValSetters intro badKeyBase = None"
  by (simp add: isIdentifier_def checkEntryValSetters_def badKeyBase_def keyRE_at_def
      entryA_def setterA_def char_class_defs)

text \<open>What the check tests, and the half of the claim that holds: an identifier passes.\<close>

lemma identifier_passes_key_check: "isIdentifier k \<Longrightarrow> evsKeyRE_MatchString k"
  by (cases k) (simp_all add: isIdentifier_def keyRE_at_def)

subsection \<open>Resolving a sub-value name\<close>

lemma getSetter_resolve:
  "getSetter F s i evKey =
    (case resolve s evKey of
       Some (k, evs) \<Rightarrow> (k, Inr evs)
     | None \<Rightarrow>
        (evKey, Inl (BadSubValueName evKey (i + 1)
                      (SuggestAlternatives F maxAltNames evKey
                         (map fst (EntryValSetterMap s) @ map fst (EntryValSMAliases s))))))"
  by (simp add: getSetter_def resolve_def Let_def split: option.splits)

lemma resolve_EntryVal [simp]: "resolve (s\<lparr>EntryVal := r\<rparr>) k = resolve s k"
  by (simp add: resolve_def split: option.splits)

lemma SuggestAlternatives_eq: "SuggestAlternatives F n s pop = F n s pop"
  by (simp add: SuggestAlternatives_def Let_def)

text \<open>
  Claim C6. \<^verbatim>\<open>getSetter\<close> looks the raw key up among the canonical keys first;
  failing that, in the alias table, for an alias whose target is a canonical key;
  failing both, it returns an error with the position \<^verbatim>\<open>i+1\<close> of the entry and
  the alternatives that the finder proposes, asked for at most 3 of them, from the
  canonical keys followed by the alias keys. The finder is outside the repository:
  that it returns at most as many strings as asked, all from the population, is the
  hypothesis.
\<close>

theorem getSetter_resolution_order:
  assumes finder: "\<forall>n x pop. length (F n x pop) \<le> n \<and> set (F n x pop) \<subseteq> set pop"
  shows "(map_of (EntryValSetterMap s) evKey = Some evs
            \<longrightarrow> getSetter F s i evKey = (evKey, Inr evs))
       \<and> (map_of (EntryValSetterMap s) evKey = None
            \<and> map_of (EntryValSMAliases s) evKey = Some target
            \<and> map_of (EntryValSetterMap s) target = Some evs
            \<longrightarrow> getSetter F s i evKey = (target, Inr evs))
       \<and> (map_of (EntryValSetterMap s) evKey = None
            \<and> (case map_of (EntryValSMAliases s) evKey of
                  None \<Rightarrow> True
                | Some target \<Rightarrow> map_of (EntryValSetterMap s) target = None)
            \<longrightarrow> (\<exists>alts. getSetter F s i evKey = (evKey, Inl (BadSubValueName evKey (i + 1) alts))
                  \<and> alts = SuggestAlternatives F maxAltNames evKey
                             (map fst (EntryValSetterMap s) @ map fst (EntryValSMAliases s))
                  \<and> length alts \<le> 3
                  \<and> set alts \<subseteq> fst ` set (EntryValSetterMap s) \<union> fst ` set (EntryValSMAliases s)))"
proof (intro conjI impI)
  assume "map_of (EntryValSetterMap s) evKey = Some evs"
  then show "getSetter F s i evKey = (evKey, Inr evs)"
    by (simp add: getSetter_def Let_def)
next
  assume "map_of (EntryValSetterMap s) evKey = None
            \<and> map_of (EntryValSMAliases s) evKey = Some target
            \<and> map_of (EntryValSetterMap s) target = Some evs"
  then show "getSetter F s i evKey = (target, Inr evs)"
    by (simp add: getSetter_def Let_def)
next
  let ?pop = "map fst (EntryValSetterMap s) @ map fst (EntryValSMAliases s)"
  let ?alts = "SuggestAlternatives F maxAltNames evKey ?pop"
  assume a: "map_of (EntryValSetterMap s) evKey = None
            \<and> (case map_of (EntryValSMAliases s) evKey of
                  None \<Rightarrow> True
                | Some target \<Rightarrow> map_of (EntryValSetterMap s) target = None)"
  then have g: "getSetter F s i evKey = (evKey, Inl (BadSubValueName evKey (i + 1) ?alts))"
    by (auto simp: getSetter_def Let_def split: option.splits)
  have e: "?alts = F 3 evKey ?pop"
    by (simp add: SuggestAlternatives_eq maxAltNames_def)
  from finder have "length (F 3 evKey ?pop) \<le> 3" and "set (F 3 evKey ?pop) \<subseteq> set ?pop"
    by blast+
  with e have "length ?alts \<le> 3"
    and "set ?alts \<subseteq> fst ` set (EntryValSetterMap s) \<union> fst ` set (EntryValSMAliases s)"
    by simp_all
  with g show "\<exists>alts. getSetter F s i evKey = (evKey, Inl (BadSubValueName evKey (i + 1) alts))
                  \<and> alts = ?alts \<and> length alts \<le> 3
                  \<and> set alts \<subseteq> fst ` set (EntryValSetterMap s) \<union> fst ` set (EntryValSMAliases s)"
    by blast
qed

text \<open>
  A canonical key, an alias of it, and a name that is neither, as the third entry.
\<close>

theorem getSetter_resolution_order_witness:
  "getSetter exampleFinder exampleBase 0 ''b'' = (''b'', Inr entryB)
   \<and> getSetter exampleFinder exampleBase 1 ''bee'' = (''b'', Inr entryB)
   \<and> getSetter exampleFinder exampleBase 2 ''c''
        = (''c'', Inl (BadSubValueName ''c'' 3 [''a'', ''b'', ''bee'']))"
proof -
  have fin: "\<forall>n x pop. length (exampleFinder n x pop) \<le> n \<and> set (exampleFinder n x pop) \<subseteq> set pop"
    by (simp add: exampleFinder_def set_take_subset)
  note r = getSetter_resolution_order [OF fin]
  have 1: "map_of (EntryValSetterMap exampleBase) ''b'' = Some entryB"
    by (simp add: exampleBase_def)
  have 2: "map_of (EntryValSetterMap exampleBase) ''bee'' = None
            \<and> map_of (EntryValSMAliases exampleBase) ''bee'' = Some ''b''
            \<and> map_of (EntryValSetterMap exampleBase) ''b'' = Some entryB"
    by (simp add: exampleBase_def)
  have 3: "map_of (EntryValSetterMap exampleBase) ''c'' = None
            \<and> (case map_of (EntryValSMAliases exampleBase) ''c'' of
                  None \<Rightarrow> True
                | Some target \<Rightarrow> map_of (EntryValSetterMap exampleBase) target = None)"
    by (simp add: exampleBase_def)
  from r [where s = exampleBase and evKey = "''b''" and evs = entryB and i = 0] 1
  have a: "getSetter exampleFinder exampleBase 0 ''b'' = (''b'', Inr entryB)" by blast
  from r [where s = exampleBase and evKey = "''bee''" and evs = entryB and i = 1
            and target = "''b''"] 2
  have b: "getSetter exampleFinder exampleBase 1 ''bee'' = (''b'', Inr entryB)" by blast
  from r [where s = exampleBase and evKey = "''c''" and i = 2] 3
  obtain alts where
    "getSetter exampleFinder exampleBase 2 ''c'' = (''c'', Inl (BadSubValueName ''c'' (2 + 1) alts))"
    and "alts = SuggestAlternatives exampleFinder maxAltNames ''c''
                  (map fst (EntryValSetterMap exampleBase) @ map fst (EntryValSMAliases exampleBase))"
    by blast
  then have c: "getSetter exampleFinder exampleBase 2 ''c''
        = (''c'', Inl (BadSubValueName ''c'' 3 [''a'', ''b'', ''bee'']))"
    by (simp add: SuggestAlternatives_def maxAltNames_def exampleFinder_def exampleBase_def)
  from a b c show ?thesis by simp
qed

subsection \<open>A field list without any assignment\<close>

text \<open>
  Claim C9. When the parameter value is a name followed by \<^verbatim>\<open>=\<close> and the text after
  it holds no match of the assignment pattern (in particular when it is empty or only
  white space), \<^verbatim>\<open>GetNamedValue\<close> returns an error with the zero value, whatever the
  configuration; for a name that passes the name check the error is
  \<^verbatim>\<open>cannot get any values from the parameter\<close>. No hypothesis mentions a mandatory
  field.
\<close>

theorem no_sub_value_is_an_error:
  assumes name: "CHR ''='' \<notin> set name"
    and nomatch: "FindAllStringSubmatch val = [] \<or> list_all isSpace val"
  shows "\<exists>s' err. GetNamedValue F z s (name @ ''='' @ val) = (s', zeroNamedValue z, Some err)
           \<and> (checkParamPartName F s name = None \<longrightarrow> err = CannotGetAnyValues val)"
proof -
  have cut: "strings_Cut (name @ ''='' @ val) ''='' = (name, val, True)"
    using name by (simp add: strings_Cut_found)
  from nomatch have none: "FindAllStringSubmatch val = []"
    by (auto dest: FindAll_spaces)
  show ?thesis
  proof (cases "checkParamPartName F s name")
    case None
    with cut none show ?thesis by (simp add: GetNamedValue_def)
  next
    case (Some e)
    with cut show ?thesis by (simp add: GetNamedValue_def)
  qed
qed

text \<open>
  With \<^const>\<open>optionalBase\<close>, where no field must be set: a name, \<^verbatim>\<open>=\<close> and one
  space, and a name and \<^verbatim>\<open>=\<close> alone.
\<close>

theorem no_sub_value_is_an_error_witness:
  "snd (GetNamedValue exampleFinder exampleZero optionalBase ''x= '')
     = (zeroNamedValue exampleZero, Some (CannotGetAnyValues '' ''))
   \<and> snd (GetNamedValue exampleFinder exampleZero optionalBase ''x='')
     = (zeroNamedValue exampleZero, Some (CannotGetAnyValues []))
   \<and> mustBeSetLoop (EntryValSetterMap optionalBase) Map.empty = None"
proof -
  have n: "CHR ''='' \<notin> set ''x''" by simp
  have c: "checkParamPartName exampleFinder optionalBase ''x'' = None"
    by (simp add: checkParamPartName_def optionalBase_def)
  have "FindAllStringSubmatch '' '' = [] \<or> list_all isSpace '' ''" by (simp add: isSpace_def)
  from no_sub_value_is_an_error [OF n this, of exampleFinder exampleZero optionalBase] c
  have 1: "snd (GetNamedValue exampleFinder exampleZero optionalBase ''x= '')
     = (zeroNamedValue exampleZero, Some (CannotGetAnyValues '' ''))" by auto
  have "FindAllStringSubmatch [] = [] \<or> list_all isSpace []" by simp
  from no_sub_value_is_an_error [OF n this, of exampleFinder exampleZero optionalBase] c
  have 2: "snd (GetNamedValue exampleFinder exampleZero optionalBase ''x='')
     = (zeroNamedValue exampleZero, Some (CannotGetAnyValues []))" by auto
  have 3: "mustBeSetLoop (EntryValSetterMap optionalBase) Map.empty = None"
    by (simp add: optionalBase_def entryA_def)
  from 1 2 3 show ?thesis by simp
qed

subsection \<open>The adapters on a repeated parameter value\<close>

lemma Map_SetWithVal_MBase:
  "\<exists>r. MBase (fst (Map_SetWithVal F z ms p)) = (MBase ms)\<lparr>EntryVal := r\<rparr>"
proof -
  obtain b nv e where g: "GetNamedValue F z (MBase ms) p = (b, nv, e)" by (metis prod_cases3)
  from GetNamedValue_frame [OF g] have "b = (MBase ms)\<lparr>EntryVal := EntryVal b\<rparr>" .
  moreover have "MBase (fst (Map_SetWithVal F z ms p)) = b"
    using g by (cases e) (simp_all add: Map_SetWithVal_def)
  ultimately show ?thesis by metis
qed

lemma List_SetWithVal_LBase:
  "\<exists>r. LBase (fst (List_SetWithVal F z ls p)) = (LBase ls)\<lparr>EntryVal := r\<rparr>"
proof -
  obtain b nv e where g: "GetNamedValue F z (LBase ls) p = (b, nv, e)" by (metis prod_cases3)
  from GetNamedValue_frame [OF g] have "b = (LBase ls)\<lparr>EntryVal := EntryVal b\<rparr>" .
  moreover have "LBase (fst (List_SetWithVal F z ls p)) = b"
    using g by (cases e) (simp_all add: List_SetWithVal_def)
  ultimately show ?thesis by metis
qed

lemma List_SetWithVal_appends:
  assumes "snd (GetNamedValue F z (LBase ls) p) = (nv, None)"
  shows "LValue (fst (List_SetWithVal F z ls p)) = LValue ls @ [nv]"
    and "snd (GetNamedValue F z (LBase (fst (List_SetWithVal F z ls p))) p) = (nv, None)"
proof -
  obtain b where g: "GetNamedValue F z (LBase ls) p = (b, nv, None)"
    using assms by (metis prod.collapse)
  then show "LValue (fst (List_SetWithVal F z ls p)) = LValue ls @ [nv]"
    by (simp add: List_SetWithVal_def)
  from List_SetWithVal_LBase [of F z ls p]
  obtain r where "LBase (fst (List_SetWithVal F z ls p)) = (LBase ls)\<lparr>EntryVal := r\<rparr>"
    by blast
  then show "snd (GetNamedValue F z (LBase (fst (List_SetWithVal F z ls p))) p) = (nv, None)"
    using assms by (simp add: GetNamedValue_ignores_EntryVal)
qed

lemma List_SetWithVal_times_appends:
  "snd (GetNamedValue F z (LBase ls) p) = (nv, None) \<Longrightarrow>
   LValue (List_SetWithVal_times F z ls p n) = LValue ls @ replicate n nv"
proof (induction n arbitrary: ls)
  case 0
  then show ?case by simp
next
  case (Suc n)
  have "LValue (List_SetWithVal_times F z ls p (Suc n))
          = LValue (fst (List_SetWithVal F z ls p)) @ replicate n nv"
    using Suc.IH [OF List_SetWithVal_appends(2) [OF Suc.prems]] by simp
  also have "LValue (fst (List_SetWithVal F z ls p)) = LValue ls @ [nv]"
    by (rule List_SetWithVal_appends(1) [OF Suc.prems])
  finally show ?case by (simp add: replicate_app_Cons_same)
qed

text \<open>
  Claim C8. Two successive calls of the map-based \<^verbatim>\<open>SetWithVal\<close> with the same
  parameter value leave the map as the first call left it, and with the same error
  or absence of error. When the parameter value parses to \<open>nv\<close>, \<open>n\<close> successive
  calls of the list-based \<^verbatim>\<open>SetWithVal\<close> with it append \<open>n\<close> copies of \<open>nv\<close> to
  the slice, whatever it held (entries of the same name included).
\<close>

theorem adapters_on_repeated_input:
  "(Map_SetWithVal F z ms p = (ms1, e1) \<and> Map_SetWithVal F z ms1 p = (ms2, e2)
     \<longrightarrow> MValue ms2 = MValue ms1 \<and> e2 = e1)
   \<and> (GetNamedValue F z (LBase ls) p = (b, nv, None)
     \<longrightarrow> LValue (List_SetWithVal_times F z ls p n) = LValue ls @ replicate n nv)"
proof (intro conjI impI)
  assume a: "Map_SetWithVal F z ms p = (ms1, e1) \<and> Map_SetWithVal F z ms1 p = (ms2, e2)"
  obtain b nv e where g: "GetNamedValue F z (MBase ms) p = (b, nv, e)" by (metis prod_cases3)
  from Map_SetWithVal_MBase [of F z ms p]
  obtain r where "MBase (fst (Map_SetWithVal F z ms p)) = (MBase ms)\<lparr>EntryVal := r\<rparr>"
    by blast
  with a have "MBase ms1 = (MBase ms)\<lparr>EntryVal := r\<rparr>" by simp
  then have "snd (GetNamedValue F z (MBase ms1) p) = (nv, e)"
    using g by (simp add: GetNamedValue_ignores_EntryVal)
  then obtain b' where g': "GetNamedValue F z (MBase ms1) p = (b', nv, e)"
    by (metis prod.collapse)
  from a g g' show "MValue ms2 = MValue ms1" and "e2 = e1"
    by (cases e; auto simp: Map_SetWithVal_def)+
next
  assume "GetNamedValue F z (LBase ls) p = (b, nv, None)"
  then show "LValue (List_SetWithVal_times F z ls p n) = LValue ls @ replicate n nv"
    by (simp add: List_SetWithVal_times_appends)
qed

text \<open>
  The same value twice into a map and three times into a slice that already hold an
  entry.
\<close>

theorem adapters_on_repeated_input_witness:
  "MValue (fst (Map_SetWithVal exampleFinder exampleZero
                  (fst (Map_SetWithVal exampleFinder exampleZero exampleMap ''foo=b=\"1\"''))
                  ''foo=b=\"1\"''))
     = [''bar'' \<mapsto> exampleDflt,
        ''foo'' \<mapsto> \<lparr>fieldA = ''da'', fieldB = ''1'', touchedB = True\<rparr>]
   \<and> MValue (fst (Map_SetWithVal exampleFinder exampleZero exampleMap ''foo=b=\"1\"''))
     = [''bar'' \<mapsto> exampleDflt,
        ''foo'' \<mapsto> \<lparr>fieldA = ''da'', fieldB = ''1'', touchedB = True\<rparr>]
   \<and> LValue (List_SetWithVal_times exampleFinder exampleZero exampleList ''foo=b=\"1\"'' 3)
     = [\<lparr>Name = ''bar'', Value = exampleDflt\<rparr>,
        \<lparr>Name = ''foo'', Value = \<lparr>fieldA = ''da'', fieldB = ''1'', touchedB = True\<rparr>\<rparr>,
        \<lparr>Name = ''foo'', Value = \<lparr>fieldA = ''da'', fieldB = ''1'', touchedB = True\<rparr>\<rparr>,
        \<lparr>Name = ''foo'', Value = \<lparr>fieldA = ''da'', fieldB = ''1'', touchedB = True\<rparr>\<rparr>]"
proof -
  let ?p = "''foo=b=\"1\"''"
  let ?v = "\<lparr>fieldA = ''da'', fieldB = ''1'', touchedB = True\<rparr>"
  let ?nv = "\<lparr>Name = ''foo'', Value = ?v\<rparr>"
  have g: "snd (GetNamedValue exampleFinder exampleZero exampleBase ?p) = (?nv, None)"
    by (simp add: engine_defs example_defs char_class_defs)
  then obtain b where gb: "GetNamedValue exampleFinder exampleZero exampleBase ?p = (b, ?nv, None)"
    by (metis prod.collapse)
  obtain ms1 e1 where m1: "Map_SetWithVal exampleFinder exampleZero exampleMap ?p = (ms1, e1)"
    by (metis prod.collapse)
  obtain ms2 e2 where m2: "Map_SetWithVal exampleFinder exampleZero ms1 ?p = (ms2, e2)"
    by (metis prod.collapse)
  have v1: "MValue ms1 = [''bar'' \<mapsto> exampleDflt, ''foo'' \<mapsto> ?v]"
    using m1 gb by (auto simp: Map_SetWithVal_def exampleMap_def)
  have "MValue ms2 = MValue ms1"
    using adapters_on_repeated_input [where F = exampleFinder and z = exampleZero
        and ms = exampleMap and p = ?p and ?ms1.0 = ms1 and ?e1.0 = e1 and ?ms2.0 = ms2
        and ?e2.0 = e2] m1 m2 by blast
  with v1 m1 m2 have a: "MValue (fst (Map_SetWithVal exampleFinder exampleZero
                  (fst (Map_SetWithVal exampleFinder exampleZero exampleMap ?p)) ?p))
     = [''bar'' \<mapsto> exampleDflt, ''foo'' \<mapsto> ?v]"
    and b: "MValue (fst (Map_SetWithVal exampleFinder exampleZero exampleMap ?p))
     = [''bar'' \<mapsto> exampleDflt, ''foo'' \<mapsto> ?v]" by simp_all
  have "LValue (List_SetWithVal_times exampleFinder exampleZero exampleList ?p 3)
          = LValue exampleList @ replicate 3 ?nv"
    using adapters_on_repeated_input [where F = exampleFinder and z = exampleZero
        and ls = exampleList and p = ?p and b = b and nv = ?nv and n = 3] gb
    by (simp add: exampleList_def)
  then have c: "LValue (List_SetWithVal_times exampleFinder exampleZero exampleList ?p 3)
     = [\<lparr>Name = ''bar'', Value = exampleDflt\<rparr>, ?nv, ?nv, ?nv]"
    by (simp add: exampleList_def numeral_3_eq_3)
  from a b c show ?thesis by simp
qed

subsection \<open>The loop over the sub-values\<close>

lemma setWithSubval_eq:
  assumes len: "length t = 3"
  shows "setWithSubval F s val i t dups =
    (if \<not> prefix (subWhole t) val
     then (s, dups, val,
           Some (UnexpectedTextBefore (fst (strings_Cut val (subWhole t))) (i + 1) (subWhole t)))
     else
       (case resolve s (subKey t) of
          None \<Rightarrow>
            (s, dups, drop (length (subWhole t)) val,
             Some (BadSubValueName (subKey t) (i + 1)
                    (SuggestAlternatives F maxAltNames (subKey t)
                       (map fst (EntryValSetterMap s) @ map fst (EntryValSMAliases s)))))
        | Some (c, evs) \<Rightarrow>
           (case dups c of
              Some prevVal \<Rightarrow>
                (s, dups, drop (length (subWhole t)) val,
                 Some (SetTwice c prevVal (subWhole t) (i + 1)))
            | None \<Rightarrow>
               (case applyEntry evs c (subVal t) (EntryVal s) of
                  (r', err) \<Rightarrow>
                    (s\<lparr>EntryVal := r'\<rparr>, dups(c \<mapsto> subWhole t),
                     drop (length (subWhole t)) val, err)))))"
proof (cases "prefix (subWhole t) val")
  case False
  with len show ?thesis
    by (simp add: setWithSubval_def Let_def expectedRegexpSubmatchLength_def
        strings_HasPrefix_def subWhole_def split: prod.splits)
next
  case True
  note pre = this
  show ?thesis
  proof (cases "resolve s (subKey t)")
    case None
    with len pre show ?thesis
      by (simp add: setWithSubval_def Let_def expectedRegexpSubmatchLength_def getSetter_resolve
          strings_HasPrefix_def strings_TrimPrefix_def subKey_def subWhole_def)
  next
    case (Some ce)
    obtain c evs where ce: "ce = (c, evs)" by (cases ce)
    show ?thesis
    proof (cases "dups c")
      case (Some prevVal)
      with len pre ce \<open>resolve s (subKey t) = Some ce\<close> show ?thesis
        by (simp add: setWithSubval_def Let_def expectedRegexpSubmatchLength_def getSetter_resolve
            strings_HasPrefix_def strings_TrimPrefix_def subKey_def subWhole_def)
    next
      case None
      with len pre ce \<open>resolve s (subKey t) = Some ce\<close> show ?thesis
        by (simp add: setWithSubval_def Let_def expectedRegexpSubmatchLength_def getSetter_resolve
            strings_HasPrefix_def strings_TrimPrefix_def subKey_def subVal_def subWhole_def
            applyEntry_def split: prod.splits option.splits)
    qed
  qed
qed

lemma setWithSubval_success_iff:
  assumes len: "length t = 3"
  shows "setWithSubval F s val i t dups = (s', dups', val', None) \<longleftrightarrow>
    (\<exists>c evs r'. prefix (subWhole t) val \<and> resolve s (subKey t) = Some (c, evs) \<and> dups c = None
       \<and> applyEntry evs c (subVal t) (EntryVal s) = (r', None)
       \<and> s' = s\<lparr>EntryVal := r'\<rparr> \<and> dups' = dups(c \<mapsto> subWhole t)
       \<and> val' = drop (length (subWhole t)) val)"
  unfolding setWithSubval_eq [OF len]
  by (auto split: option.splits prod.splits)

lemma setWithSubval_bad_length:
  "length t \<noteq> 3 \<Longrightarrow>
   setWithSubval F s val i t dups = (s, dups, val, Some (CannotParseSubValue (i + 1)))"
  by (simp add: setWithSubval_def expectedRegexpSubmatchLength_def)

lemma canonical_EntryVal [simp]: "canonical (s\<lparr>EntryVal := r\<rparr>) k = canonical s k"
  by (simp add: canonical_def)

lemma applyAssignments_EntryVal [simp]:
  "applyAssignments (s\<lparr>EntryVal := r\<rparr>) kvs x = applyAssignments s kvs x"
  by (induction kvs arbitrary: x) (auto split: option.splits prod.splits)

lemma seenAfter_EntryVal [simp]: "seenAfter (s\<lparr>EntryVal := r\<rparr>) ts = seenAfter s ts"
  by (simp add: seenAfter_def)

lemma subValuesLoop_append:
  "subValuesLoop F s val i (xs @ ys) dups =
    (case subValuesLoop F s val i xs dups of
       (s1, d1, v1, Some e) \<Rightarrow> (s1, d1, v1, Some e)
     | (s1, d1, v1, None) \<Rightarrow> subValuesLoop F s1 v1 (i + length xs) ys d1)"
  by (induction xs arbitrary: s val i dups) (auto split: prod.splits option.splits)

lemma subValuesLoop_success_D:
  "subValuesLoop F s val i ts dups = (s1, d1, v1, None) \<Longrightarrow>
     list_all (\<lambda>t. length t = 3) ts
     \<and> applyAssignments s (map subKeyVal ts) (EntryVal s) = Some (EntryVal s1)
     \<and> s1 = s\<lparr>EntryVal := EntryVal s1\<rparr>
     \<and> val = concat (map subWhole ts) @ v1
     \<and> distinct (map fst (seenAfter s ts))
     \<and> dom dups \<inter> fst ` set (seenAfter s ts) = {}
     \<and> d1 = dups ++ map_of (seenAfter s ts)"
proof (induction ts arbitrary: s val i dups)
  case Nil
  then show ?case by (auto simp: seenAfter_def)
next
  case (Cons t ts)
  have len: "length t = 3"
  proof (rule ccontr)
    assume "length t \<noteq> 3"
    then have "setWithSubval F s val i t dups = (s, dups, val, Some (CannotParseSubValue (i + 1)))"
      by (rule setWithSubval_bad_length)
    with Cons.prems show False by simp
  qed
  from Cons.prems obtain s' dups' val' where
    step: "setWithSubval F s val i t dups = (s', dups', val', None)"
    and rest: "subValuesLoop F s' val' (Suc i) ts dups' = (s1, d1, v1, None)"
    by (auto split: prod.splits option.splits)
  from step [unfolded setWithSubval_success_iff [OF len]] obtain c evs r' where
    pre: "prefix (subWhole t) val" and res: "resolve s (subKey t) = Some (c, evs)"
    and fresh: "dups c = None"
    and app: "applyEntry evs c (subVal t) (EntryVal s) = (r', None)"
    and s': "s' = s\<lparr>EntryVal := r'\<rparr>" and dups': "dups' = dups(c \<mapsto> subWhole t)"
    and val': "val' = drop (length (subWhole t)) val"
    by blast
  have can: "canonical s (subKey t) = c" using res by (simp add: canonical_def)
  from Cons.IH [OF rest] have
    ih1: "list_all (\<lambda>t. length t = 3) ts"
    and ih2: "applyAssignments s (map subKeyVal ts) r' = Some (EntryVal s1)"
    and ih3: "s1 = s'\<lparr>EntryVal := EntryVal s1\<rparr>"
    and ih4: "val' = concat (map subWhole ts) @ v1"
    and ih5: "distinct (map fst (seenAfter s ts))"
    and ih6: "dom dups' \<inter> fst ` set (seenAfter s ts) = {}"
    and ih7: "d1 = dups' ++ map_of (seenAfter s ts)"
    by (simp_all add: s')
  have cdom: "c \<in> dom dups'" by (simp add: dups')
  with ih6 have cnot: "c \<notin> fst ` set (seenAfter s ts)" by blast
  have sub: "dom dups \<subseteq> dom dups'" by (auto simp: dups')
  have hd: "seenAfter s (t # ts) = (c, subWhole t) # seenAfter s ts"
    by (simp add: seenAfter_def can)
  have "val = subWhole t @ val'" using pre val' by (auto simp: prefix_def)
  with ih4 have c4: "val = concat (map subWhole (t # ts)) @ v1" by simp
  have c7: "d1 = dups ++ map_of (seenAfter s (t # ts))"
  proof -
    have "d1 = (dups ++ map_of (seenAfter s ts))(c \<mapsto> subWhole t)"
      unfolding ih7 dups' using cnot by (simp add: map_add_upd_left dom_map_of_conv_image_fst)
    also have "\<dots> = dups ++ map_of (seenAfter s (t # ts))"
      by (simp add: hd)
    finally show ?thesis .
  qed
  have c6: "dom dups \<inter> fst ` set (seenAfter s (t # ts)) = {}"
  proof -
    from ih6 sub have "dom dups \<inter> fst ` set (seenAfter s ts) = {}" by blast
    moreover have "c \<notin> dom dups" using fresh by (simp add: domIff)
    ultimately show ?thesis by (simp add: hd)
  qed
  have c5: "distinct (map fst (seenAfter s (t # ts)))"
    using ih5 cnot by (simp add: hd)
  have c2: "applyAssignments s (map subKeyVal (t # ts)) (EntryVal s) = Some (EntryVal s1)"
    using ih2 res app by (simp add: subKeyVal_def [of t])
  have c3: "s1 = s\<lparr>EntryVal := EntryVal s1\<rparr>"
    using ih3 unfolding s' by (metis MultiSetterBase.update_convs(2) MultiSetterBase.surjective
          MultiSetterBase.select_convs)
  from ih1 len c2 c3 c4 c5 c6 c7 show ?case by simp
qed

lemma subValuesLoop_success_I:
  "list_all (\<lambda>t. length t = 3) ts \<Longrightarrow>
   applyAssignments s (map subKeyVal ts) (EntryVal s) = Some r \<Longrightarrow>
   distinct (map fst (seenAfter s ts)) \<Longrightarrow>
   dom dups \<inter> fst ` set (seenAfter s ts) = {} \<Longrightarrow>
   subValuesLoop F s (concat (map subWhole ts) @ tail) i ts dups
     = (s\<lparr>EntryVal := r\<rparr>, dups ++ map_of (seenAfter s ts), tail, None)"
proof (induction ts arbitrary: s i dups)
  case Nil
  then show ?case by (simp add: seenAfter_def)
next
  case (Cons t ts)
  from Cons.prems(1) have len: "length t = 3" and lens: "list_all (\<lambda>t. length t = 3) ts"
    by simp_all
  have kv: "subKeyVal t = (subKey t, subVal t)" by (simp add: subKeyVal_def)
  from Cons.prems(2) obtain c evs r' where
    res: "resolve s (subKey t) = Some (c, evs)"
    and app: "applyEntry evs c (subVal t) (EntryVal s) = (r', None)"
    and rest: "applyAssignments s (map subKeyVal ts) r' = Some r"
    by (auto simp: kv split: option.splits prod.splits)
  have can: "canonical s (subKey t) = c" using res by (simp add: canonical_def)
  have hd: "seenAfter s (t # ts) = (c, subWhole t) # seenAfter s ts"
    by (simp add: seenAfter_def can)
  from Cons.prems(3) have cnot: "c \<notin> fst ` set (seenAfter s ts)"
    and dist: "distinct (map fst (seenAfter s ts))"
    by (simp_all add: hd)
  from Cons.prems(4) have fresh: "dups c = None"
    and disj: "dom dups \<inter> fst ` set (seenAfter s ts) = {}"
    by (auto simp: hd)
  let ?s' = "s\<lparr>EntryVal := r'\<rparr>"
  let ?dups' = "dups(c \<mapsto> subWhole t)"
  let ?val = "concat (map subWhole (t # ts)) @ tail"
  have pre: "prefix (subWhole t) ?val" by simp
  have step: "setWithSubval F s ?val i t dups
               = (?s', ?dups', concat (map subWhole ts) @ tail, None)"
    unfolding setWithSubval_eq [OF len] using pre res fresh app by simp
  have disj': "dom ?dups' \<inter> fst ` set (seenAfter ?s' ts) = {}"
    using disj cnot by simp
  have "subValuesLoop F ?s' (concat (map subWhole ts) @ tail) (Suc i) ts ?dups'
          = (?s'\<lparr>EntryVal := r\<rparr>, ?dups' ++ map_of (seenAfter ?s' ts), tail, None)"
    by (rule Cons.IH [OF lens _ _ disj']) (simp_all add: rest dist)
  moreover have "?dups' ++ map_of (seenAfter s ts) = dups ++ map_of (seenAfter s (t # ts))"
    using cnot by (simp add: hd map_add_upd_left dom_map_of_conv_image_fst)
  ultimately show ?case using step by simp
qed

lemma mustBeSetLoop_None_iff:
  "mustBeSetLoop m dups = None \<longleftrightarrow> (\<forall>(k, evs) \<in> set m. MustBeSet evs \<longrightarrow> k \<in> dom dups)"
  by (induction m dups rule: mustBeSetLoop.induct) (auto simp: domIff)

lemma mustBeSetLoop_Some_D:
  "mustBeSetLoop m dups = Some e \<Longrightarrow>
   \<exists>k evs. (k, evs) \<in> set m \<and> MustBeSet evs \<and> k \<notin> dom dups \<and> e = MustBeSetButHasNot k"
  by (induction m dups rule: mustBeSetLoop.induct) (auto simp: domIff split: if_splits)

lemma subValueRE_at_length3: "subValueRE_at s = Some (m, rest) \<Longrightarrow> length m = 3"
  by (auto simp: subValueRE_at_def Let_def split: list.splits if_splits)

lemma subValueRE_find_length3: "subValueRE_find s = Some (sk, m, rest) \<Longrightarrow> length m = 3"
  by (induction s arbitrary: sk)
     (auto split: option.splits dest: subValueRE_at_length3)

lemma FindAll_length3: "list_all (\<lambda>t. length t = 3) (FindAllStringSubmatch val)"
proof (induction val rule: FindAllStringSubmatch.induct)
  case (1 s)
  show ?case
  proof (cases "subValueRE_find s")
    case None
    then show ?thesis by (subst FindAllStringSubmatch.simps) simp
  next
    case (Some p)
    obtain sk m rest where p: "p = (sk, m, rest)" by (cases p)
    from 1 [OF Some] p have "list_all (\<lambda>t. length t = 3) (FindAllStringSubmatch rest)" by simp
    moreover have "length m = 3" using Some p by (auto dest: subValueRE_find_length3)
    ultimately show ?thesis
      using Some p by (subst FindAllStringSubmatch.simps) simp
  qed
qed

lemma checkAliasesLoop_None_D:
  "checkAliasesLoop evsm al = None \<Longrightarrow> (a, v) \<in> set al \<Longrightarrow>
   map_of evsm a = None \<and> map_of evsm v \<noteq> None"
  by (induction evsm al rule: checkAliasesLoop.induct) (auto split: if_splits)

lemma GetNamedValue_loop:
  assumes cut: "strings_Cut paramVal ''='' = (name, val, True)"
    and nm: "checkParamPartName F s name = None"
    and ne: "FindAllStringSubmatch val \<noteq> []"
  shows "GetNamedValue F z s paramVal =
    (case subValuesLoop F (s\<lparr>EntryVal := DfltEntryVal s\<rparr>) val 0 (FindAllStringSubmatch val) Map.empty of
       (s2, dups, val', Some err) \<Rightarrow> (s2, zeroNamedValue z, Some err)
     | (s2, dups, val', None) \<Rightarrow>
        (case mustBeSetLoop (EntryValSetterMap s) dups of
           Some err \<Rightarrow> (s2, zeroNamedValue z, Some err)
         | None \<Rightarrow>
            if val' \<noteq> [] then (s2, zeroNamedValue z, Some (UnexpectedTextAtEnd val'))
            else (s2, \<lparr>Name = name, Value = EntryVal s2\<rparr>, None)))"
proof -
  obtain s2 dups val' e where lp:
    "subValuesLoop F (s\<lparr>EntryVal := DfltEntryVal s\<rparr>) val 0 (FindAllStringSubmatch val) Map.empty
       = (s2, dups, val', e)"
    by (metis prod_cases4)
  from subValuesLoop_frame [OF lp] have "EntryValSetterMap s2 = EntryValSetterMap s"
    by (metis MultiSetterBase.select_convs(3) MultiSetterBase.surjective
        MultiSetterBase.update_convs(2))
  with cut nm ne lp show ?thesis
    by (simp add: GetNamedValue_def Let_def split: option.splits)
qed


lemma GetNamedValue_resets_scratch:
  assumes cut: "strings_Cut p ''='' = (n, v, True)"
    and nm: "checkParamPartName F s n = None"
  shows "GetNamedValue F z (s\<lparr>EntryVal := r\<rparr>) p = GetNamedValue F z s p"
  using cut nm by (simp add: GetNamedValue_def Let_def)

lemma GetNamedValue_keeps_scratch:
  assumes cut: "strings_Cut p ''='' = (n, v, ok)"
    and no: "\<not> ok \<or> checkParamPartName F s n \<noteq> None"
  shows "fst (GetNamedValue F z s p) = s"
  using cut no by (auto simp: GetNamedValue_def Let_def split: option.splits)


lemmas token_defs = subKey_def subVal_def subWhole_def wholeValIdx_def keyIdx_def valIdx_def


subsection \<open>The tokenizer on a well-formed field list\<close>

lemma space_not_key: "isSpace c \<Longrightarrow> \<not> isKeyChar c"
  by (auto simp: char_class_defs)

lemma keyStart_not_space: "isKeyStart c \<Longrightarrow> \<not> isSpace c"
  by (auto simp: char_class_defs)

lemma keyStart_keyChar: "isKeyStart c \<Longrightarrow> isKeyChar c"
  by (simp add: isKeyChar_def)

lemma eq_not_key: "\<not> isKeyChar CHR ''=''"
  by (simp add: char_class_defs)

lemma eq_not_space: "\<not> isSpace CHR ''=''"
  by (simp add: char_class_defs)

lemma quote_not_space: "\<not> isSpace dquote"
  by (simp add: char_class_defs)

lemma run_then_break:
  assumes "list_all P xs" and "ys = [] \<or> \<not> P (hd ys)"
  shows "takeWhile P (xs @ ys) = xs" and "dropWhile P (xs @ ys) = ys"
proof -
  from assms(1) have all: "\<forall>x\<in>set xs. P x" by (simp add: list_all_iff)
  from assms(2) have t: "takeWhile P ys = []" and d: "dropWhile P ys = ys"
    by (cases ys; auto)+
  from all t show "takeWhile P (xs @ ys) = xs" by (simp add: takeWhile_append2)
  from all d show "dropWhile P (xs @ ys) = ys" by (simp add: dropWhile_append2)
qed

lemma subValueRE_at_front:
  assumes s1: "list_all isSpace s1"
    and key: "isIdentifier key"
    and s2: "list_all isSpace s2"
    and s3: "list_all isSpace s3"
    and str: "list_all notQuote str"
  shows "subValueRE_at (s1 @ key @ s2 @ ''='' @ s3 @ [dquote] @ str @ [dquote] @ rest)
    = Some ([s1 @ key @ s2 @ ''='' @ s3 @ [dquote] @ str @ [dquote] @ takeWhile isSpace rest,
             key, str],
            dropWhile isSpace rest)"
proof -
  from key obtain c cs where k: "key = c # cs" and c: "isKeyStart c" and cs: "list_all isKeyChar cs"
    by (auto simp: isIdentifier_def split: list.splits)
  let ?r5 = "rest"
  let ?r4 = "str @ dquote # ?r5"
  let ?r3 = "s3 @ dquote # ?r4"
  let ?r2 = "s2 @ CHR ''='' # ?r3"
  let ?r1 = "cs @ ?r2"
  have a: "takeWhile isSpace (s1 @ c # ?r1) = s1" "dropWhile isSpace (s1 @ c # ?r1) = c # ?r1"
    using run_then_break [OF s1, of "c # ?r1"] keyStart_not_space [OF c] by simp_all
  have nk: "?r2 = [] \<or> \<not> isKeyChar (hd ?r2)"
    using s2 by (cases s2) (simp_all add: eq_not_key space_not_key)
  have b: "takeWhile isKeyChar ?r1 = cs" "dropWhile isKeyChar ?r1 = ?r2"
    using run_then_break [OF cs nk] by simp_all
  have d: "takeWhile isSpace ?r2 = s2" "dropWhile isSpace ?r2 = CHR ''='' # ?r3"
    using run_then_break [OF s2, of "CHR ''='' # ?r3"] eq_not_space by simp_all
  have e: "takeWhile isSpace ?r3 = s3" "dropWhile isSpace ?r3 = dquote # ?r4"
    using run_then_break [OF s3, of "dquote # ?r4"] quote_not_space by simp_all
  have f: "takeWhile notQuote ?r4 = str" "dropWhile notQuote ?r4 = dquote # ?r5"
    using run_then_break [OF str, of "dquote # ?r5"] by (simp_all add: notQuote_def)
  have "s1 @ key @ s2 @ ''='' @ s3 @ [dquote] @ str @ [dquote] @ rest = s1 @ c # ?r1"
    by (simp add: k)
  then show ?thesis
    by (simp add: subValueRE_at_def a b d e f k c)
qed

lemma FindAll_at:
  assumes "subValueRE_at s = Some (m, rest)"
  shows "FindAllStringSubmatch s = m # FindAllStringSubmatch rest"
proof (cases s)
  case Nil
  with assms show ?thesis by (simp add: subValueRE_at_def)
next
  case (Cons c cs)
  with assms have "subValueRE_find s = Some ([], m, rest)" by simp
  then show ?thesis by (subst FindAllStringSubmatch.simps) simp
qed

lemma FindAll_empty: "FindAllStringSubmatch [] = []"
  by (subst FindAllStringSubmatch.simps) simp

lemma token_parts:
  "subWhole [w, k, v] = w" "subKeyVal [w, k, v] = (k, v)"
  by (simp_all add: subWhole_def subKeyVal_def subKey_def subVal_def wholeValIdx_def keyIdx_def
      valIdx_def)

lemma render_strip:
  "render a = sp1 a @ render (a\<lparr>sp1 := []\<rparr>)"
  by (simp add: render_def)

lemma wellFormed_strip: "wellFormed a \<Longrightarrow> wellFormed (a\<lparr>sp1 := []\<rparr>)"
  by (simp add: wellFormed_def)

lemma render_stripped_starts_with_key:
  assumes "wellFormed a"
  shows "render (a\<lparr>sp1 := []\<rparr>) @ rest \<noteq> [] \<and> \<not> isSpace (hd (render (a\<lparr>sp1 := []\<rparr>) @ rest))"
proof -
  from assms obtain c cs where "akey a = c # cs" and "isKeyStart c"
    by (auto simp: wellFormed_def isIdentifier_def split: list.splits)
  then show ?thesis by (simp add: render_def keyStart_not_space)
qed

lemma FindAll_wellFormed:
  "list_all wellFormed (a # as) \<Longrightarrow>
   \<exists>ts. FindAllStringSubmatch (concat (map render (a # as))) = ts
      \<and> ts \<noteq> []
      \<and> list_all (\<lambda>t. length t = 3) ts
      \<and> map subKeyVal ts = map rawAssignment (a # as)
      \<and> concat (map subWhole ts) = concat (map render (a # as))"
proof (induction as arbitrary: a)
  case Nil
  then have wf: "wellFormed a" by simp
  then have sp4: "list_all isSpace (sp4 a)" by (simp add: wellFormed_def)
  from run_then_break [OF sp4, of "[]"]
  have tw: "takeWhile isSpace (sp4 a) = sp4 a" "dropWhile isSpace (sp4 a) = []" by simp_all
  have "subValueRE_at (render a) = Some ([render a, akey a, astr a], [])"
    using subValueRE_at_front [of "sp1 a" "akey a" "sp2 a" "sp3 a" "astr a" "sp4 a"] wf tw
    by (simp add: wellFormed_def render_def)
  from FindAll_at [OF this]
  have "FindAllStringSubmatch (render a) = [[render a, akey a, astr a]]"
    by (simp add: FindAll_empty)
  then show ?case by (simp add: token_parts rawAssignment_def)
next
  case (Cons b bs)
  then have wfa: "wellFormed a" and wfb: "wellFormed b" and wfbs: "list_all wellFormed bs"
    by simp_all
  let ?b = "b\<lparr>sp1 := []\<rparr>"
  let ?tl = "render ?b @ concat (map render bs)"
  let ?rest = "sp4 a @ sp1 b @ ?tl"
  let ?w = "sp1 a @ akey a @ sp2 a @ ''='' @ sp3 a @ [dquote] @ astr a @ [dquote] @ sp4 a @ sp1 b"
  have shape: "concat (map render (a # b # bs)) = render a @ sp1 b @ ?tl"
    by (simp add: render_strip [of b])
  have ws: "list_all isSpace (sp4 a @ sp1 b)"
    using wfa wfb by (simp add: wellFormed_def)
  from run_then_break [OF ws, of ?tl] render_stripped_starts_with_key [OF wfb]
  have tw: "takeWhile isSpace ?rest = sp4 a @ sp1 b" "dropWhile isSpace ?rest = ?tl"
    by simp_all
  have "subValueRE_at (concat (map render (a # b # bs))) = Some ([?w, akey a, astr a], ?tl)"
    using subValueRE_at_front [of "sp1 a" "akey a" "sp2 a" "sp3 a" "astr a" ?rest] wfa tw
    by (simp add: shape wellFormed_def render_def)
  from FindAll_at [OF this]
  have fa: "FindAllStringSubmatch (concat (map render (a # b # bs)))
              = [?w, akey a, astr a] # FindAllStringSubmatch (concat (map render (?b # bs)))"
    by simp
  have "list_all wellFormed (?b # bs)" using wfb wfbs by (simp add: wellFormed_strip)
  from Cons.IH [OF this] obtain ts where
    ts: "FindAllStringSubmatch (concat (map render (?b # bs))) = ts"
    and len: "list_all (\<lambda>t. length t = 3) ts"
    and kv: "map subKeyVal ts = map rawAssignment (?b # bs)"
    and wh: "concat (map subWhole ts) = concat (map render (?b # bs))"
    by blast
  have "map subKeyVal ([?w, akey a, astr a] # ts) = map rawAssignment (a # b # bs)"
    using kv by (simp add: token_parts rawAssignment_def)
  moreover have "concat (map subWhole ([?w, akey a, astr a] # ts))
                   = concat (map render (a # b # bs))"
    using wh by (simp add: token_parts shape render_def)
  ultimately show ?case using fa ts len by simp
qed

subsection \<open>A field assigned through an alias and through its key\<close>

text \<open>
  Claim C4. Let \<open>k\<close> be a canonical key and \<open>al\<close> an alias of \<open>k\<close> in a
  configuration whose alias table passes its check. When the \<open>i\<close>-th and the
  \<open>j\<close>-th match of a parameter value (\<open>i < j\<close>, counted from 0) name \<open>al\<close> and
  \<open>k\<close>, in either order, and nothing fails before the duplicate check of the
  \<open>j\<close>-th (the loop over the matches before it returns no error and the \<open>j\<close>-th
  match is at the front of the remaining text), \<^verbatim>\<open>GetNamedValue\<close> returns the error
  \<^verbatim>\<open>the value for k has been set twice\<close> with the canonical key, the whole text of
  the \<open>i\<close>-th match, the whole text of the \<open>j\<close>-th match and the position
  \<open>j + 1\<close>, and the zero value.
\<close>

theorem alias_and_key_is_duplicate:
  assumes cut: "strings_Cut paramVal ''='' = (name, val, True)"
    and nm: "checkParamPartName F s name = None"
    and svs: "FindAllStringSubmatch val = svs"
    and ij: "i < j" "j < length svs"
    and canon: "map_of (EntryValSetterMap s) k = Some evs"
    and als: "map_of (EntryValSMAliases s) al = Some k"
    and chk: "checkEntryValSetterMapAliases intro s = None"
    and keys: "(subKey (svs ! i) = al \<and> subKey (svs ! j) = k)
               \<or> (subKey (svs ! i) = k \<and> subKey (svs ! j) = al)"
    and early: "subValuesLoop F (s\<lparr>EntryVal := DfltEntryVal s\<rparr>) val 0 (take j svs) Map.empty
                  = (s1, d1, v1, None)"
    and front: "prefix (subWhole (svs ! j)) v1"
  shows "GetNamedValue F z s paramVal
           = (s1, zeroNamedValue z,
              Some (SetTwice k (subWhole (svs ! i)) (subWhole (svs ! j)) (j + 1)))"
proof -
  let ?s0 = "s\<lparr>EntryVal := DfltEntryVal s\<rparr>"
  have "(al, k) \<in> set (EntryValSMAliases s)" using als by (rule map_of_SomeD)
  with chk have "map_of (EntryValSetterMap s) al = None"
    by (auto simp: checkEntryValSetterMapAliases_def dest: checkAliasesLoop_None_D)
  with canon als have ral: "resolve s al = Some (k, evs)" and rk: "resolve s k = Some (k, evs)"
    by (simp_all add: resolve_def)
  with keys have ri: "resolve s (subKey (svs ! i)) = Some (k, evs)"
    and rj: "resolve s (subKey (svs ! j)) = Some (k, evs)" by auto
  from subValuesLoop_success_D [OF early] have
    s1: "s1 = ?s0\<lparr>EntryVal := EntryVal s1\<rparr>"
    and dist: "distinct (map fst (seenAfter s (take j svs)))"
    and d1: "d1 = map_of (seenAfter s (take j svs))"
    by simp_all
  have "take j svs ! i = svs ! i" using ij by simp
  moreover have "i < length (take j svs)" using ij by simp
  ultimately have "svs ! i \<in> set (take j svs)" by (metis nth_mem)
  then have "(k, subWhole (svs ! i)) \<in> set (seenAfter s (take j svs))"
    using ri by (force simp: seenAfter_def canonical_def)
  with dist have seen: "d1 k = Some (subWhole (svs ! i))" by (simp add: d1)
  have len: "length (svs ! j) = 3"
    using FindAll_length3 [of val] ij svs by (simp add: list_all_length)
  have rj1: "resolve s1 (subKey (svs ! j)) = Some (k, evs)"
    by (subst s1) (simp add: rj)
  have step: "setWithSubval F s1 v1 j (svs ! j) d1
               = (s1, d1, drop (length (subWhole (svs ! j))) v1,
                  Some (SetTwice k (subWhole (svs ! i)) (subWhole (svs ! j)) (j + 1)))"
    unfolding setWithSubval_eq [OF len] using front rj1 seen by simp
  have split: "svs = take j svs @ svs ! j # drop (Suc j) svs"
    using ij by (simp add: id_take_nth_drop)
  have "subValuesLoop F ?s0 val 0 svs Map.empty
          = (s1, d1, drop (length (subWhole (svs ! j))) v1,
             Some (SetTwice k (subWhole (svs ! i)) (subWhole (svs ! j)) (j + 1)))"
    by (subst split) (use ij early step in \<open>simp add: subValuesLoop_append\<close>)
  moreover have "FindAllStringSubmatch val \<noteq> []" using ij svs by auto
  ultimately show ?thesis
    using GetNamedValue_loop [OF cut nm, of z] svs by simp
qed


text \<open>The alias first and the key second, and the key first and the alias second.\<close>

theorem alias_and_key_is_duplicate_witness:
  "GetNamedValue exampleFinder exampleZero exampleBase ''foo=bee=\"1\" b=\"2\"''
     = (exampleBase\<lparr>EntryVal := \<lparr>fieldA = ''da'', fieldB = ''1'', touchedB = True\<rparr>\<rparr>,
        zeroNamedValue exampleZero,
        Some (SetTwice ''b'' ''bee=\"1\" '' ''b=\"2\"'' 2))
   \<and> GetNamedValue exampleFinder exampleZero exampleBase ''foo=b=\"1\" bee=\"2\"''
     = (exampleBase\<lparr>EntryVal := \<lparr>fieldA = ''da'', fieldB = ''1'', touchedB = True\<rparr>\<rparr>,
        zeroNamedValue exampleZero,
        Some (SetTwice ''b'' ''b=\"1\" '' ''bee=\"2\"'' 2))"
proof -
  let ?s1 = "exampleBase\<lparr>EntryVal := \<lparr>fieldA = ''da'', fieldB = ''1'', touchedB = True\<rparr>\<rparr>"
  have nm: "checkParamPartName exampleFinder exampleBase ''foo'' = None"
    by (simp add: checkParamPartName_def ValueAllowed_def exampleBase_def)
  have canon: "map_of (EntryValSetterMap exampleBase) ''b'' = Some entryB"
    and als: "map_of (EntryValSMAliases exampleBase) ''bee'' = Some ''b''"
    by (simp_all add: exampleBase_def)
  have chk: "checkEntryValSetterMapAliases [] exampleBase = None"
    by (simp add: checkEntryValSetterMapAliases_def exampleBase_def)
  have cut1: "strings_Cut ''foo=bee=\"1\" b=\"2\"'' ''='' = (''foo'', ''bee=\"1\" b=\"2\"'', True)"
    by simp
  have svs1: "FindAllStringSubmatch ''bee=\"1\" b=\"2\"''
                = [[''bee=\"1\" '', ''bee'', ''1''], [''b=\"2\"'', ''b'', ''2'']]"
    by (simp add: FindAllStringSubmatch.simps subValueRE_at_def char_class_defs)
  have early1: "subValuesLoop exampleFinder (exampleBase\<lparr>EntryVal := DfltEntryVal exampleBase\<rparr>)
                  ''bee=\"1\" b=\"2\"'' 0
                  (take 1 [[''bee=\"1\" '', ''bee'', ''1''], [''b=\"2\"'', ''b'', ''2'']]) Map.empty
                = (?s1, [''b'' \<mapsto> ''bee=\"1\" ''], ''b=\"2\"'', None)"
    by (simp add: engine_defs example_defs)
  have 1: "GetNamedValue exampleFinder exampleZero exampleBase ''foo=bee=\"1\" b=\"2\"''
     = (?s1, zeroNamedValue exampleZero, Some (SetTwice ''b'' ''bee=\"1\" '' ''b=\"2\"'' 2))"
    using alias_and_key_is_duplicate [OF cut1 nm svs1 _ _ canon als chk _ early1,
        of 0 exampleZero]
    by (simp add: token_defs)
  have cut2: "strings_Cut ''foo=b=\"1\" bee=\"2\"'' ''='' = (''foo'', ''b=\"1\" bee=\"2\"'', True)"
    by simp
  have svs2: "FindAllStringSubmatch ''b=\"1\" bee=\"2\"''
                = [[''b=\"1\" '', ''b'', ''1''], [''bee=\"2\"'', ''bee'', ''2'']]"
    by (simp add: FindAllStringSubmatch.simps subValueRE_at_def char_class_defs)
  have early2: "subValuesLoop exampleFinder (exampleBase\<lparr>EntryVal := DfltEntryVal exampleBase\<rparr>)
                  ''b=\"1\" bee=\"2\"'' 0
                  (take 1 [[''b=\"1\" '', ''b'', ''1''], [''bee=\"2\"'', ''bee'', ''2'']]) Map.empty
                = (?s1, [''b'' \<mapsto> ''b=\"1\" ''], ''bee=\"2\"'', None)"
    by (simp add: engine_defs example_defs)
  have 2: "GetNamedValue exampleFinder exampleZero exampleBase ''foo=b=\"1\" bee=\"2\"''
     = (?s1, zeroNamedValue exampleZero, Some (SetTwice ''b'' ''b=\"1\" '' ''bee=\"2\"'' 2))"
    using alias_and_key_is_duplicate [OF cut2 nm svs2 _ _ canon als chk _ early2,
        of 0 exampleZero]
    by (simp add: token_defs)
  from 1 2 show ?thesis by simp
qed

subsection \<open>Text left after the matches\<close>

text \<open>
  Claim C7 says that a non-empty remainder after the matches always gives the error
  \<^verbatim>\<open>unexpected text ... at the end of the parameter value\<close>. The loop over the
  mandatory fields runs before that test: in \<^const>\<open>exampleBase\<close>, where \<open>b\<close> must
  be set, the value \<^verbatim>\<open>foo=a="1" xyz\<close> leaves \<^verbatim>\<open>xyz\<close> after its one match and the
  error is the one for the missing \<open>b\<close>. And when the text holds no match at all the
  error is \<^verbatim>\<open>cannot get any values from the parameter\<close>.
\<close>

theorem trailing_text_counterexample:
  "fst (snd (snd (subValuesLoop exampleFinder (exampleBase\<lparr>EntryVal := DfltEntryVal exampleBase\<rparr>)
                    ''a=\"1\" xyz'' 0 (FindAllStringSubmatch ''a=\"1\" xyz'') Map.empty))) = ''xyz''
   \<and> snd (snd (snd (subValuesLoop exampleFinder (exampleBase\<lparr>EntryVal := DfltEntryVal exampleBase\<rparr>)
                    ''a=\"1\" xyz'' 0 (FindAllStringSubmatch ''a=\"1\" xyz'') Map.empty))) = None
   \<and> snd (snd (GetNamedValue exampleFinder exampleZero exampleBase ''foo=a=\"1\" xyz''))
        = Some (MustBeSetButHasNot ''b'')
   \<and> FindAllStringSubmatch ''xyz'' = []
   \<and> snd (snd (GetNamedValue exampleFinder exampleZero optionalBase ''x=xyz''))
        = Some (CannotGetAnyValues ''xyz'')"
  by (simp add: engine_defs example_defs char_class_defs)


text \<open>
  Claim C7, amended. When the name passes its check, the text after \<^verbatim>\<open>=\<close> holds at
  least one match, the loop over the matches returns no error and leaves a non-empty
  remainder \<open>rest\<close> (the text is then the matches, one after the other, followed by
  \<open>rest\<close>), \<^verbatim>\<open>GetNamedValue\<close> returns an error and the zero value: the error for
  the unexpected text \<open>rest\<close> when every field that must be set is in \<^verbatim>\<open>dups\<close>,
  and otherwise the error for a field that must be set and is not.
\<close>

theorem trailing_text_after_the_matches:
  assumes cut: "strings_Cut paramVal ''='' = (name, val, True)"
    and nm: "checkParamPartName F s name = None"
    and ne: "FindAllStringSubmatch val \<noteq> []"
    and loop: "subValuesLoop F (s\<lparr>EntryVal := DfltEntryVal s\<rparr>) val 0
                 (FindAllStringSubmatch val) Map.empty = (s2, dups, rest, None)"
    and rest: "rest \<noteq> []"
  shows "val = concat (map subWhole (FindAllStringSubmatch val)) @ rest
       \<and> (\<exists>err. GetNamedValue F z s paramVal = (s2, zeroNamedValue z, Some err)
            \<and> (if \<forall>(k, evs) \<in> set (EntryValSetterMap s). MustBeSet evs \<longrightarrow> k \<in> dom dups
                then err = UnexpectedTextAtEnd rest
                else \<exists>k evs. (k, evs) \<in> set (EntryValSetterMap s) \<and> MustBeSet evs
                       \<and> k \<notin> dom dups \<and> err = MustBeSetButHasNot k))"
proof -
  from subValuesLoop_success_D [OF loop]
  have v: "val = concat (map subWhole (FindAllStringSubmatch val)) @ rest" by simp
  show ?thesis
  proof (cases "mustBeSetLoop (EntryValSetterMap s) dups")
    case None
    then have "\<forall>(k, evs) \<in> set (EntryValSetterMap s). MustBeSet evs \<longrightarrow> k \<in> dom dups"
      by (simp add: mustBeSetLoop_None_iff)
    moreover have "GetNamedValue F z s paramVal
                     = (s2, zeroNamedValue z, Some (UnexpectedTextAtEnd rest))"
      using GetNamedValue_loop [OF cut nm ne, of z] loop None rest by simp
    ultimately show ?thesis using v by simp
  next
    case (Some e)
    then have "\<not> (\<forall>(k, evs) \<in> set (EntryValSetterMap s). MustBeSet evs \<longrightarrow> k \<in> dom dups)"
      using mustBeSetLoop_None_iff [of "EntryValSetterMap s" dups] by simp
    moreover from mustBeSetLoop_Some_D [OF Some] obtain k evs where
      "(k, evs) \<in> set (EntryValSetterMap s)" "MustBeSet evs" "k \<notin> dom dups"
      "e = MustBeSetButHasNot k" by blast
    moreover have "GetNamedValue F z s paramVal = (s2, zeroNamedValue z, Some e)"
      using GetNamedValue_loop [OF cut nm ne, of z] loop Some by simp
    ultimately show ?thesis using v by auto
  qed
qed

text \<open>Both cases, on \<^const>\<open>exampleBase\<close>.\<close>

theorem trailing_text_after_the_matches_witness:
  "GetNamedValue exampleFinder exampleZero exampleBase ''foo=b=\"1\" xyz''
     = (exampleBase\<lparr>EntryVal := \<lparr>fieldA = ''da'', fieldB = ''1'', touchedB = True\<rparr>\<rparr>,
        zeroNamedValue exampleZero, Some (UnexpectedTextAtEnd ''xyz''))
   \<and> GetNamedValue exampleFinder exampleZero exampleBase ''foo=a=\"1\" xyz''
     = (exampleBase\<lparr>EntryVal := \<lparr>fieldA = ''1'', fieldB = ''db'', touchedB = False\<rparr>\<rparr>,
        zeroNamedValue exampleZero, Some (MustBeSetButHasNot ''b''))"
proof -
  have nm: "checkParamPartName exampleFinder exampleBase ''foo'' = None"
    by (simp add: checkParamPartName_def ValueAllowed_def exampleBase_def)
  have cut1: "strings_Cut ''foo=b=\"1\" xyz'' ''='' = (''foo'', ''b=\"1\" xyz'', True)" by simp
  have svs1: "FindAllStringSubmatch ''b=\"1\" xyz'' = [[''b=\"1\" '', ''b'', ''1'']]"
    by (simp add: FindAllStringSubmatch.simps subValueRE_at_def char_class_defs)
  then have ne1: "FindAllStringSubmatch ''b=\"1\" xyz'' \<noteq> []" by simp
  let ?s1 = "exampleBase\<lparr>EntryVal := \<lparr>fieldA = ''da'', fieldB = ''1'', touchedB = True\<rparr>\<rparr>"
  have loop1: "subValuesLoop exampleFinder (exampleBase\<lparr>EntryVal := DfltEntryVal exampleBase\<rparr>)
                 ''b=\"1\" xyz'' 0 (FindAllStringSubmatch ''b=\"1\" xyz'') Map.empty
               = (?s1, [''b'' \<mapsto> ''b=\"1\" ''], ''xyz'', None)"
    unfolding svs1 by (simp add: engine_defs example_defs)
  have all1: "\<forall>(k, evs) \<in> set (EntryValSetterMap exampleBase).
                MustBeSet evs \<longrightarrow> k \<in> dom [''b'' \<mapsto> ''b=\"1\" '']"
    by (simp add: exampleBase_def entryA_def entryB_def)
  from trailing_text_after_the_matches [OF cut1 nm ne1 loop1, of exampleZero] all1
  have 1: "GetNamedValue exampleFinder exampleZero exampleBase ''foo=b=\"1\" xyz''
            = (?s1, zeroNamedValue exampleZero, Some (UnexpectedTextAtEnd ''xyz''))"
    by auto
  have cut2: "strings_Cut ''foo=a=\"1\" xyz'' ''='' = (''foo'', ''a=\"1\" xyz'', True)" by simp
  have svs2: "FindAllStringSubmatch ''a=\"1\" xyz'' = [[''a=\"1\" '', ''a'', ''1'']]"
    by (simp add: FindAllStringSubmatch.simps subValueRE_at_def char_class_defs)
  then have ne2: "FindAllStringSubmatch ''a=\"1\" xyz'' \<noteq> []" by simp
  let ?s2 = "exampleBase\<lparr>EntryVal := \<lparr>fieldA = ''1'', fieldB = ''db'', touchedB = False\<rparr>\<rparr>"
  have loop2: "subValuesLoop exampleFinder (exampleBase\<lparr>EntryVal := DfltEntryVal exampleBase\<rparr>)
                 ''a=\"1\" xyz'' 0 (FindAllStringSubmatch ''a=\"1\" xyz'') Map.empty
               = (?s2, [''a'' \<mapsto> ''a=\"1\" ''], ''xyz'', None)"
    unfolding svs2 by (simp add: engine_defs example_defs)
  have all2: "\<not> (\<forall>(k, evs) \<in> set (EntryValSetterMap exampleBase).
                MustBeSet evs \<longrightarrow> k \<in> dom [''a'' \<mapsto> ''a=\"1\" ''])"
    by (simp add: exampleBase_def entryA_def entryB_def)
  from trailing_text_after_the_matches [OF cut2 nm ne2 loop2, of exampleZero]
  obtain err where g0: "GetNamedValue exampleFinder exampleZero exampleBase ''foo=a=\"1\" xyz''
            = (?s2, zeroNamedValue exampleZero, Some err)"
    and c: "if \<forall>(k, evs) \<in> set (EntryValSetterMap exampleBase).
                 MustBeSet evs \<longrightarrow> k \<in> dom [''a'' \<mapsto> ''a=\"1\" '']
            then err = UnexpectedTextAtEnd ''xyz''
            else \<exists>k evs. (k, evs) \<in> set (EntryValSetterMap exampleBase) \<and> MustBeSet evs
                   \<and> k \<notin> dom [''a'' \<mapsto> ''a=\"1\" ''] \<and> err = MustBeSetButHasNot k"
    by blast
  from c all2 obtain k evs where k: "(k, evs) \<in> set (EntryValSetterMap exampleBase)"
      "MustBeSet evs" "k \<notin> dom [''a'' \<mapsto> ''a=\"1\" '']" and e: "err = MustBeSetButHasNot k"
    by (simp only: if_False) blast
  from g0 e have g: "GetNamedValue exampleFinder exampleZero exampleBase ''foo=a=\"1\" xyz''
            = (?s2, zeroNamedValue exampleZero, Some (MustBeSetButHasNot k))" by simp
  from k have "k = ''b''" by (auto simp: exampleBase_def entryA_def entryB_def)
  with g 1 show ?thesis by simp
qed


subsection \<open>The scratch record after a failure\<close>

text \<open>
  Claim C10 says that the next call resets the scratch record to the default. A call
  without \<^verbatim>\<open>=\<close> returns before the reset: after the failed
  \<^verbatim>\<open>foo=a="1" c="2"\<close>, the call with \<^verbatim>\<open>bar\<close> succeeds, returns the default record
  and leaves in \<^verbatim>\<open>EntryVal\<close> the record in which \<open>a\<close> is set.
\<close>

theorem next_call_may_keep_stale_scratch:
  "EntryVal (fst (GetNamedValue exampleFinder exampleZero
               (fst (GetNamedValue exampleFinder exampleZero exampleBase ''foo=a=\"1\" c=\"2\"''))
               ''bar''))
     = \<lparr>fieldA = ''1'', fieldB = ''db'', touchedB = False\<rparr>
   \<and> DfltEntryVal exampleBase = \<lparr>fieldA = ''da'', fieldB = ''db'', touchedB = False\<rparr>
   \<and> snd (GetNamedValue exampleFinder exampleZero
            (fst (GetNamedValue exampleFinder exampleZero exampleBase ''foo=a=\"1\" c=\"2\"''))
            ''bar'')
       = (\<lparr>Name = ''bar'', Value = \<lparr>fieldA = ''da'', fieldB = ''db'', touchedB = False\<rparr>\<rparr>, None)"
  by (simp add: engine_defs example_defs char_class_defs)

text \<open>
  Claim C10, amended. Let the loop over the first \<open>j\<close> matches return no error and
  the \<open>j\<close>-th match fail with \<open>err\<close>. Then \<^verbatim>\<open>GetNamedValue\<close> returns \<open>err\<close>
  with the zero value, and the receiver keeps in \<^verbatim>\<open>EntryVal\<close> what the assignments
  left: the default record updated by the first \<open>j\<close> assignments, and, when the
  \<open>j\<close>-th entry got as far as its setter, what its setter and post-action functions
  made of that. The next call that has a \<^verbatim>\<open>=\<close> and a name that passes the name
  check behaves as if the failed call had not happened (it resets the scratch
  record); a call without \<^verbatim>\<open>=\<close> or with a bad name leaves the scratch record as
  it is.
\<close>

theorem scratch_record_after_failure:
  assumes cut: "strings_Cut paramVal ''='' = (name, val, True)"
    and nm: "checkParamPartName F s name = None"
    and svs: "FindAllStringSubmatch val = svs"
    and j: "j < length svs"
    and early: "subValuesLoop F (s\<lparr>EntryVal := DfltEntryVal s\<rparr>) val 0 (take j svs) Map.empty
                  = (s1, d1, v1, None)"
    and fails: "setWithSubval F s1 v1 j (svs ! j) d1 = (s2, d2, v2, Some err)"
  shows "GetNamedValue F z s paramVal = (s2, zeroNamedValue z, Some err)
       \<and> applyAssignments s (map subKeyVal (take j svs)) (DfltEntryVal s) = Some (EntryVal s1)
       \<and> (\<not> prefix (subWhole (svs ! j)) v1 \<or> resolve s (subKey (svs ! j)) = None
            \<or> d1 (canonical s (subKey (svs ! j))) \<noteq> None \<longrightarrow> s2 = s1)
       \<and> (\<forall>c evs. prefix (subWhole (svs ! j)) v1 \<and> resolve s (subKey (svs ! j)) = Some (c, evs)
              \<and> d1 c = None
            \<longrightarrow> EntryVal s2 = fst (applyEntry evs c (subVal (svs ! j)) (EntryVal s1)))
       \<and> (\<forall>p n v. strings_Cut p ''='' = (n, v, True) \<and> checkParamPartName F s n = None
            \<longrightarrow> GetNamedValue F z s2 p = GetNamedValue F z s p)
       \<and> (\<forall>p n v ok. strings_Cut p ''='' = (n, v, ok)
              \<and> (\<not> ok \<or> checkParamPartName F s n \<noteq> None)
            \<longrightarrow> fst (GetNamedValue F z s2 p) = s2)"
proof -
  let ?s0 = "s\<lparr>EntryVal := DfltEntryVal s\<rparr>"
  let ?t = "svs ! j"
  from subValuesLoop_success_D [OF early] have
    s1: "s1 = ?s0\<lparr>EntryVal := EntryVal s1\<rparr>"
    and app: "applyAssignments s (map subKeyVal (take j svs)) (DfltEntryVal s) = Some (EntryVal s1)"
    by simp_all
  from setWithSubval_frame [OF fails] have s2: "s2 = s1\<lparr>EntryVal := EntryVal s2\<rparr>" .
  with s1 have s2': "s2 = s\<lparr>EntryVal := EntryVal s2\<rparr>"
    by (metis MultiSetterBase.update_convs(2) MultiSetterBase.surjective
        MultiSetterBase.select_convs)
  have res1: "resolve s1 (subKey ?t) = resolve s (subKey ?t)"
    by (subst s1) simp
  have len: "length ?t = 3"
    using FindAll_length3 [of val] j svs by (simp add: list_all_length)
  have split: "svs = take j svs @ ?t # drop (Suc j) svs"
    using j by (simp add: id_take_nth_drop)
  have "subValuesLoop F ?s0 val 0 svs Map.empty = (s2, d2, v2, Some err)"
    by (subst split) (use j early fails in \<open>simp add: subValuesLoop_append\<close>)
  moreover have "FindAllStringSubmatch val \<noteq> []" using j svs by auto
  ultimately have g: "GetNamedValue F z s paramVal = (s2, zeroNamedValue z, Some err)"
    using GetNamedValue_loop [OF cut nm, of z] svs by simp
  have before: "\<not> prefix (subWhole ?t) v1 \<or> resolve s (subKey ?t) = None
            \<or> d1 (canonical s (subKey ?t)) \<noteq> None \<longrightarrow> s2 = s1"
    using fails unfolding setWithSubval_eq [OF len] res1
    by (auto simp: canonical_def split: option.splits if_splits)
  have after: "\<forall>c evs. prefix (subWhole ?t) v1 \<and> resolve s (subKey ?t) = Some (c, evs)
              \<and> d1 c = None
            \<longrightarrow> EntryVal s2 = fst (applyEntry evs c (subVal ?t) (EntryVal s1))"
    using fails unfolding setWithSubval_eq [OF len] res1
    by (auto split: prod.splits)
  have nxt: "\<forall>p n v. strings_Cut p ''='' = (n, v, True) \<and> checkParamPartName F s n = None
            \<longrightarrow> GetNamedValue F z s2 p = GetNamedValue F z s p"
    by (subst s2') (auto intro: GetNamedValue_resets_scratch)
  have stale: "\<forall>p n v ok. strings_Cut p ''='' = (n, v, ok)
              \<and> (\<not> ok \<or> checkParamPartName F s n \<noteq> None)
            \<longrightarrow> fst (GetNamedValue F z s2 p) = s2"
  proof (intro allI impI)
    fix p n v ok
    assume a: "strings_Cut p ''='' = (n, v, ok) \<and> (\<not> ok \<or> checkParamPartName F s n \<noteq> None)"
    have "checkParamPartName F s2 n = checkParamPartName F s n" by (subst s2') simp
    with a show "fst (GetNamedValue F z s2 p) = s2"
      by (intro GetNamedValue_keeps_scratch [of p n v ok]) auto
  qed
  from g app before after nxt stale show ?thesis by blast
qed

text \<open>
  An unknown name in second position: \<open>a\<close> stays set in the scratch record; the
  next call with a field list starts from the default, the next call with a bare name
  does not touch the scratch record.
\<close>

theorem scratch_record_after_failure_witness:
  "GetNamedValue exampleFinder exampleZero exampleBase ''foo=a=\"1\" c=\"2\"''
     = (exampleBase\<lparr>EntryVal := \<lparr>fieldA = ''1'', fieldB = ''db'', touchedB = False\<rparr>\<rparr>,
        zeroNamedValue exampleZero, Some (BadSubValueName ''c'' 2 [''a'', ''b'', ''bee'']))
   \<and> DfltEntryVal exampleBase = \<lparr>fieldA = ''da'', fieldB = ''db'', touchedB = False\<rparr>
   \<and> snd (GetNamedValue exampleFinder exampleZero
            (exampleBase\<lparr>EntryVal := \<lparr>fieldA = ''1'', fieldB = ''db'', touchedB = False\<rparr>\<rparr>)
            ''bar=b=\"9\"'')
       = (\<lparr>Name = ''bar'', Value = \<lparr>fieldA = ''da'', fieldB = ''9'', touchedB = True\<rparr>\<rparr>, None)
   \<and> fst (GetNamedValue exampleFinder exampleZero
            (exampleBase\<lparr>EntryVal := \<lparr>fieldA = ''1'', fieldB = ''db'', touchedB = False\<rparr>\<rparr>)
            ''bar'')
       = exampleBase\<lparr>EntryVal := \<lparr>fieldA = ''1'', fieldB = ''db'', touchedB = False\<rparr>\<rparr>"
proof -
  let ?s1 = "exampleBase\<lparr>EntryVal := \<lparr>fieldA = ''1'', fieldB = ''db'', touchedB = False\<rparr>\<rparr>"
  let ?e = "BadSubValueName ''c'' 2 [''a'', ''b'', ''bee'']"
  have nm: "checkParamPartName exampleFinder exampleBase ''foo'' = None"
    and nm2: "checkParamPartName exampleFinder exampleBase ''bar'' = None"
    by (simp_all add: checkParamPartName_def ValueAllowed_def exampleBase_def)
  have cut: "strings_Cut ''foo=a=\"1\" c=\"2\"'' ''='' = (''foo'', ''a=\"1\" c=\"2\"'', True)"
    by simp
  have svs: "FindAllStringSubmatch ''a=\"1\" c=\"2\"''
               = [[''a=\"1\" '', ''a'', ''1''], [''c=\"2\"'', ''c'', ''2'']]"
    by (simp add: FindAllStringSubmatch.simps subValueRE_at_def char_class_defs)
  have early: "subValuesLoop exampleFinder (exampleBase\<lparr>EntryVal := DfltEntryVal exampleBase\<rparr>)
                 ''a=\"1\" c=\"2\"'' 0
                 (take 1 [[''a=\"1\" '', ''a'', ''1''], [''c=\"2\"'', ''c'', ''2'']]) Map.empty
               = (?s1, [''a'' \<mapsto> ''a=\"1\" ''], ''c=\"2\"'', None)"
    by (simp add: engine_defs example_defs)
  have fails: "setWithSubval exampleFinder ?s1 ''c=\"2\"'' 1
                 ([[''a=\"1\" '', ''a'', ''1''], [''c=\"2\"'', ''c'', ''2'']] ! 1)
                 [''a'' \<mapsto> ''a=\"1\" '']
               = (?s1, [''a'' \<mapsto> ''a=\"1\" ''], [], Some ?e)"
    by (simp add: engine_defs example_defs)
  note t = scratch_record_after_failure [OF cut nm svs _ early fails, of exampleZero, simplified]
  from t have 1: "GetNamedValue exampleFinder exampleZero exampleBase ''foo=a=\"1\" c=\"2\"''
                    = (?s1, zeroNamedValue exampleZero, Some ?e)" by blast
  have cut2: "strings_Cut ''bar=b=\"9\"'' ''='' = (''bar'', ''b=\"9\"'', True)" by simp
  from t cut2 nm2 have "GetNamedValue exampleFinder exampleZero ?s1 ''bar=b=\"9\"''
                          = GetNamedValue exampleFinder exampleZero exampleBase ''bar=b=\"9\"''"
    by blast
  moreover have "snd (GetNamedValue exampleFinder exampleZero exampleBase ''bar=b=\"9\"'')
       = (\<lparr>Name = ''bar'', Value = \<lparr>fieldA = ''da'', fieldB = ''9'', touchedB = True\<rparr>\<rparr>, None)"
    by (simp add: engine_defs example_defs char_class_defs)
  ultimately have 2: "snd (GetNamedValue exampleFinder exampleZero ?s1 ''bar=b=\"9\"'')
       = (\<lparr>Name = ''bar'', Value = \<lparr>fieldA = ''da'', fieldB = ''9'', touchedB = True\<rparr>\<rparr>, None)"
    by simp
  have cut3: "strings_Cut ''bar'' ''='' = (''bar'', [], False)" by simp
  from t cut3 have 3: "fst (GetNamedValue exampleFinder exampleZero ?s1 ''bar'') = ?s1"
    by blast
  have 4: "DfltEntryVal exampleBase = \<lparr>fieldA = ''da'', fieldB = ''db'', touchedB = False\<rparr>"
    by (simp add: exampleBase_def exampleDflt_def)
  from 1 2 3 4 show ?thesis by simp
qed

subsection \<open>A well-formed parameter value\<close>

text \<open>
  Claim C1 says that every well-formed field list parses. The grammar allows a list
  with no assignment, and \<^verbatim>\<open>GetNamedValue\<close> refuses it: in \<^const>\<open>optionalBase\<close>,
  which passes the configuration checks and has no mandatory field, the value
  \<^verbatim>\<open>x=\<close> has a permitted name, its empty list of assignments is well formed, names
  distinct fields, leaves no mandatory field out and makes no setter fail, and the
  result is the error \<^verbatim>\<open>cannot get any values from the parameter\<close>.
\<close>

theorem empty_field_list_is_refused:
  "CheckMultiSetter (\<lambda>avals. None) ''algo'' optionalBase = None
   \<and> checkParamPartName exampleFinder optionalBase ''x'' = None
   \<and> list_all wellFormed []
   \<and> distinct (map (canonical optionalBase \<circ> akey) [])
   \<and> mustBeSetLoop (EntryValSetterMap optionalBase) Map.empty = None
   \<and> applyAssignments optionalBase (map rawAssignment []) (DfltEntryVal optionalBase)
        = Some exampleDflt
   \<and> GetNamedValue exampleFinder exampleZero optionalBase (''x'' @ ''='' @ concat (map render []))
        = (optionalBase\<lparr>EntryVal := exampleDflt\<rparr>, zeroNamedValue exampleZero,
           Some (CannotGetAnyValues []))"
  by (simp add: CheckMultiSetter_def checkAllowedValues_def checkEntryValSetters_def
      checkEntryValSetterMapAliases_def keyRE_at_def engine_defs example_defs char_class_defs)

text \<open>
  Claim C1, amended. Let the name be non-empty, without \<^verbatim>\<open>=\<close>, and permitted by
  the allow-list (which may be empty). Let the field list be the text of a non-empty
  list of well-formed assignments whose keys resolve, as canonical keys or aliases, to
  distinct canonical keys that include every key that must be set, and whose setters
  and post-action functions, run in order from the default record, all succeed and
  give the record \<open>r\<close>. Then \<^verbatim>\<open>GetNamedValue\<close> returns no error and the
  \<^verbatim>\<open>NamedValue\<close> of that name and \<open>r\<close>: the default record updated by exactly the
  assignments of the list.
\<close>

theorem well_formed_value_is_parsed:
  assumes name: "name \<noteq> []" "CHR ''='' \<notin> set name"
    and allowed: "AVals s = [] \<or> name \<in> fst ` set (AVals s)"
    and ne: "as \<noteq> []"
    and wf: "list_all wellFormed as"
    and app: "applyAssignments s (map rawAssignment as) (DfltEntryVal s) = Some r"
    and dist: "distinct (map (canonical s \<circ> akey) as)"
    and mand: "\<forall>(k, evs) \<in> set (EntryValSetterMap s).
                 MustBeSet evs \<longrightarrow> k \<in> (canonical s \<circ> akey) ` set as"
  shows "GetNamedValue F z s (name @ ''='' @ concat (map render as))
           = (s\<lparr>EntryVal := r\<rparr>, \<lparr>Name = name, Value = r\<rparr>, None)"
proof -
  let ?val = "concat (map render as)"
  let ?s0 = "s\<lparr>EntryVal := DfltEntryVal s\<rparr>"
  have cut: "strings_Cut (name @ ''='' @ ?val) ''='' = (name, ?val, True)"
    using name(2) by (simp add: strings_Cut_found)
  have nm: "checkParamPartName F s name = None"
    using name(1) allowed
    by (auto simp: checkParamPartName_def ValueAllowed_def map_of_eq_None_iff)
  from ne obtain a as' where as: "as = a # as'" by (cases as) auto
  from FindAll_wellFormed [of a as'] wf obtain ts where
    ts: "FindAllStringSubmatch ?val = ts" and tne: "ts \<noteq> []"
    and len: "list_all (\<lambda>t. length t = 3) ts"
    and kv: "map subKeyVal ts = map rawAssignment as"
    and wh: "concat (map subWhole ts) = ?val"
    unfolding as by blast
  have "map (canonical s \<circ> fst) (map subKeyVal ts) = map (canonical s \<circ> fst) (map rawAssignment as)"
    by (simp only: kv)
  then have keys: "map fst (seenAfter s ts) = map (canonical s \<circ> akey) as"
    by (simp add: seenAfter_def subKeyVal_def rawAssignment_def comp_def)
  have app0: "applyAssignments ?s0 (map subKeyVal ts) (EntryVal ?s0) = Some r"
    using app by (simp add: kv)
  have dist0: "distinct (map fst (seenAfter ?s0 ts))"
    using dist by (simp add: keys)
  have "subValuesLoop F ?s0 (concat (map subWhole ts) @ []) 0 ts Map.empty
          = (?s0\<lparr>EntryVal := r\<rparr>, Map.empty ++ map_of (seenAfter ?s0 ts), [], None)"
    by (rule subValuesLoop_success_I [OF len app0 dist0]) simp
  then have loop: "subValuesLoop F ?s0 ?val 0 (FindAllStringSubmatch ?val) Map.empty
          = (s\<lparr>EntryVal := r\<rparr>, map_of (seenAfter s ts), [], None)"
    by (simp add: wh ts)
  have "dom (map_of (seenAfter s ts)) = (canonical s \<circ> akey) ` set as"
    using keys by (metis dom_map_of_conv_image_fst list.set_map)
  with mand have must: "mustBeSetLoop (EntryValSetterMap s) (map_of (seenAfter s ts)) = None"
    by (simp add: mustBeSetLoop_None_iff)
  have "FindAllStringSubmatch ?val \<noteq> []" using ts tne by simp
  from GetNamedValue_loop [OF cut nm this, of z] loop must show ?thesis by simp
qed


text \<open>
  Two values on \<^const>\<open>exampleBase\<close>, which passes the configuration checks: one
  assigns both fields, the second through its alias and with white space around
  \<^verbatim>\<open>=\<close>; the other assigns \<open>b\<close> only and \<open>a\<close> keeps its default.
\<close>

theorem well_formed_value_is_parsed_witness:
  "GetNamedValue exampleFinder exampleZero exampleBase ''foo= a=\"1\" bee = \"x y\"''
     = (exampleBase\<lparr>EntryVal := \<lparr>fieldA = ''1'', fieldB = ''x y'', touchedB = True\<rparr>\<rparr>,
        \<lparr>Name = ''foo'', Value = \<lparr>fieldA = ''1'', fieldB = ''x y'', touchedB = True\<rparr>\<rparr>, None)
   \<and> GetNamedValue exampleFinder exampleZero exampleBase ''foo=b=\"2\"''
     = (exampleBase\<lparr>EntryVal := \<lparr>fieldA = ''da'', fieldB = ''2'', touchedB = True\<rparr>\<rparr>,
        \<lparr>Name = ''foo'', Value = \<lparr>fieldA = ''da'', fieldB = ''2'', touchedB = True\<rparr>\<rparr>, None)
   \<and> DfltEntryVal exampleBase = \<lparr>fieldA = ''da'', fieldB = ''db'', touchedB = False\<rparr>
   \<and> CheckMultiSetter (\<lambda>avals. None) ''algo'' exampleBase = None"
proof -
  have n: "''foo'' \<noteq> []" "CHR ''='' \<notin> set ''foo''" by simp_all
  have al: "AVals exampleBase = [] \<or> ''foo'' \<in> fst ` set (AVals exampleBase)"
    by (simp add: exampleBase_def)
  have rb: "resolve exampleBase ''b'' = Some (''b'', entryB)"
    and ra: "resolve exampleBase ''a'' = Some (''a'', entryA)"
    and rbee: "resolve exampleBase ''bee'' = Some (''b'', entryB)"
    by (simp_all add: resolve_def exampleBase_def)
  have dflt: "DfltEntryVal exampleBase = exampleDflt"
    and esm: "EntryValSetterMap exampleBase = [(''a'', entryA), (''b'', entryB)]"
    by (simp_all add: exampleBase_def)
  have ne1: "exampleAssignments \<noteq> []" by (simp add: exampleAssignments_def)
  have wf1: "list_all wellFormed exampleAssignments"
    by (simp add: exampleAssignments_def wellFormed_def isIdentifier_def char_class_defs)
  have app1: "applyAssignments exampleBase (map rawAssignment exampleAssignments)
                (DfltEntryVal exampleBase)
              = Some \<lparr>fieldA = ''1'', fieldB = ''x y'', touchedB = True\<rparr>"
    by (simp add: exampleAssignments_def rawAssignment_def ra rbee applyEntry_def entryA_def
        entryB_def setterA_def setterB_def dflt exampleDflt_def)
  have d1: "distinct (map (canonical exampleBase \<circ> akey) exampleAssignments)"
    by (simp add: exampleAssignments_def canonical_def ra rbee)
  have m1: "\<forall>(k, evs) \<in> set (EntryValSetterMap exampleBase).
              MustBeSet evs \<longrightarrow> k \<in> (canonical exampleBase \<circ> akey) ` set exampleAssignments"
    by (simp add: exampleAssignments_def canonical_def ra rbee esm entryA_def)
  have 1: "GetNamedValue exampleFinder exampleZero exampleBase ''foo= a=\"1\" bee = \"x y\"''
     = (exampleBase\<lparr>EntryVal := \<lparr>fieldA = ''1'', fieldB = ''x y'', touchedB = True\<rparr>\<rparr>,
        \<lparr>Name = ''foo'', Value = \<lparr>fieldA = ''1'', fieldB = ''x y'', touchedB = True\<rparr>\<rparr>, None)"
    using well_formed_value_is_parsed [OF n al ne1 wf1 app1 d1 m1, of exampleFinder exampleZero]
    by (simp add: exampleAssignments_def render_def dquote_def)
  let ?as2 = "[\<lparr>sp1 = [], akey = ''b'', sp2 = [], sp3 = [], astr = ''2'', sp4 = []\<rparr>]"
  have wf2: "list_all wellFormed ?as2"
    by (simp add: wellFormed_def isIdentifier_def char_class_defs)
  have app2: "applyAssignments exampleBase (map rawAssignment ?as2) (DfltEntryVal exampleBase)
              = Some \<lparr>fieldA = ''da'', fieldB = ''2'', touchedB = True\<rparr>"
    by (simp add: rawAssignment_def rb applyEntry_def entryB_def setterB_def dflt
        exampleDflt_def)
  have d2: "distinct (map (canonical exampleBase \<circ> akey) ?as2)" by simp
  have m2: "\<forall>(k, evs) \<in> set (EntryValSetterMap exampleBase).
              MustBeSet evs \<longrightarrow> k \<in> (canonical exampleBase \<circ> akey) ` set ?as2"
    by (simp add: canonical_def rb esm entryA_def)
  have 2: "GetNamedValue exampleFinder exampleZero exampleBase ''foo=b=\"2\"''
     = (exampleBase\<lparr>EntryVal := \<lparr>fieldA = ''da'', fieldB = ''2'', touchedB = True\<rparr>\<rparr>,
        \<lparr>Name = ''foo'', Value = \<lparr>fieldA = ''da'', fieldB = ''2'', touchedB = True\<rparr>\<rparr>, None)"
    using well_formed_value_is_parsed [OF n al _ wf2 app2 d2 m2, of exampleFinder exampleZero]
    by (simp add: render_def dquote_def)
  have 3: "DfltEntryVal exampleBase = \<lparr>fieldA = ''da'', fieldB = ''db'', touchedB = False\<rparr>"
    by (simp add: exampleBase_def exampleDflt_def)
  have 4: "CheckMultiSetter (\<lambda>avals. None) ''algo'' exampleBase = None"
    by (simp add: CheckMultiSetter_def checkAllowedValues_def checkEntryValSetters_def
        checkEntryValSetterMapAliases_def exampleBase_def entryA_def entryB_def setterA_def
        setterB_def keyRE_at_def char_class_defs)
  from 1 2 3 4 show ?thesis by simp
qed

end
